theory Spec2Isabelle
  imports Main
begin

section \<open>Configuration\<close>

text \<open>
  The plugin's settings object (\<^verbatim>\<open>interface DateHighlighterSettings\<close>). Colours are
  strings; the two thresholds are JavaScript numbers that the settings tab only ever sets
  from \<^verbatim>\<open>parseInt\<close>, modelled as integers.
\<close>

record DateHighlighterSettings =
  highlightInlineContent :: bool
  highlightFilenames :: bool
  recentColor :: string
  intermediateColor :: string
  oldColor :: string
  recentDays :: int
  intermediateDays :: int
  textColor :: string

definition DEFAULT_SETTINGS :: DateHighlighterSettings where
  "DEFAULT_SETTINGS =
     \<lparr> highlightInlineContent = True, highlightFilenames = True,
       recentColor = ''#a4e7c3'', intermediateColor = ''#e7dba4'', oldColor = ''#e7a4a4'',
       recentDays = 14, intermediateDays = 30, textColor = ''#000000'' \<rparr>"

section \<open>The date patterns\<close>

text \<open>
  The four regular expressions of \<^verbatim>\<open>DATE_FORMATS\<close> use only \<^verbatim>\<open>\d\<close> with a fixed
  repetition count and literal separators, so a pattern is a sequence of atoms, each of
  which consumes one character. Text is a \<^typ>\<open>string\<close>; an offset is an index into it.
  A \<^typ>\<open>char\<close> has eight bits; a JavaScript code unit beyond that range is neither a
  digit nor one of the separators, like every character here that is not one of them.
\<close>

datatype atom = Digit | Lit char

type_synonym regex = "atom list"

definition is_digit :: "char \<Rightarrow> bool" where
  "is_digit c = (48 \<le> (of_char c :: nat) \<and> (of_char c :: nat) \<le> 57)"

fun atom_matches :: "atom \<Rightarrow> char \<Rightarrow> bool" where
  "atom_matches Digit c = is_digit c"
| "atom_matches (Lit l) c = (c = l)"

text \<open>\<open>match_here re cs\<close>: the pattern matches a prefix of \<open>cs\<close>.\<close>

fun match_here :: "regex \<Rightarrow> string \<Rightarrow> bool" where
  "match_here [] cs = True"
| "match_here (a # as) [] = False"
| "match_here (a # as) (c # cs) = (atom_matches a c \<and> match_here as cs)"

definition digits :: "nat \<Rightarrow> regex" where
  "digits n = replicate n Digit"

definition RE_YMD_DASH :: regex where
  "RE_YMD_DASH = digits 4 @ [Lit (CHR ''-'')] @ digits 2 @ [Lit (CHR ''-'')] @ digits 2"

definition RE_MDY_SLASH :: regex where
  "RE_MDY_SLASH = digits 2 @ [Lit (CHR ''/'')] @ digits 2 @ [Lit (CHR ''/'')] @ digits 4"

definition RE_DMY_DASH :: regex where
  "RE_DMY_DASH = digits 2 @ [Lit (CHR ''-'')] @ digits 2 @ [Lit (CHR ''-'')] @ digits 4"

definition RE_YMD_DOT :: regex where
  "RE_YMD_DOT = digits 4 @ [Lit (CHR ''.'')] @ digits 2 @ [Lit (CHR ''.'')] @ digits 2"

definition DATE_FORMATS :: "regex list" where
  "DATE_FORMATS = [RE_YMD_DASH, RE_MDY_SLASH, RE_DMY_DASH, RE_YMD_DOT]"

section \<open>Ambient state: the wall clock and the regex cursors\<close>

text \<open>
  The source reads two pieces of ambient state. \<^verbatim>\<open>moment()\<close> reads the wall clock: the
  \<open>n\<close>-th reading is \<open>clock w n\<close>, in milliseconds of local wall-clock time since
  1970-01-01 00:00, and \<open>reads w\<close> counts the readings taken so far. Each of the four
  regular expressions is one module-level object with the \<^verbatim>\<open>g\<close> flag, so it carries a
  \<^verbatim>\<open>lastIndex\<close> cursor that \<^verbatim>\<open>exec\<close> reads and writes: \<open>lastIndex w k\<close> is the
  cursor of \<open>DATE_FORMATS ! k\<close>.
\<close>

record world =
  clock :: "nat \<Rightarrow> int"
  reads :: nat
  lastIndex :: "nat \<Rightarrow> nat"

definition moment_now :: "world \<Rightarrow> int \<times> world" where
  "moment_now w = (clock w (reads w), w\<lparr>reads := Suc (reads w)\<rparr>)"

section \<open>Scanning with a global regular expression\<close>

text \<open>
  \<open>search re cs i\<close>: the leftmost offset at or after \<open>i\<close> at which \<open>re\<close> matches, where
  \<open>cs\<close> is the text from offset \<open>i\<close> on.
\<close>

fun search :: "regex \<Rightarrow> string \<Rightarrow> nat \<Rightarrow> nat option" where
  "search re [] i = (if match_here re [] then Some i else None)"
| "search re (c # cs) i = (if match_here re (c # cs) then Some i else search re cs (Suc i))"

text \<open>
  \<^verbatim>\<open>regex.exec(text)\<close> on a global regex whose cursor is \<open>li\<close>: the result is the match
  (its index and its text) or \<open>None\<close> for \<^verbatim>\<open>null\<close>, together with the new cursor: the end
  of the match, or \<open>0\<close> when there is none.
\<close>

definition regex_exec :: "regex \<Rightarrow> string \<Rightarrow> nat \<Rightarrow> (nat \<times> string) option \<times> nat" where
  "regex_exec re text li =
     (if length text < li then (None, 0)
      else case search re (drop li text) li of
             None \<Rightarrow> (None, 0)
           | Some i \<Rightarrow> (Some (i, take (length re) (drop i text)), i + length re))"

lemma search_bounds:
  "search re cs i = Some j \<Longrightarrow> i \<le> j \<and> j + length re \<le> i + length cs \<and> match_here re (drop (j - i) cs)"
proof (induction cs arbitrary: i)
  case Nil
  then show ?case by (cases re) (auto split: if_splits)
next
  case (Cons c cs)
  show ?case
  proof (cases "match_here re (c # cs)")
    case True
    have "length re \<le> length ds" if "match_here re ds" for ds
      using that by (induction re ds rule: match_here.induct) auto
    with True Cons.prems show ?thesis by fastforce
  next
    case False
    with Cons.prems have s: "search re cs (Suc i) = Some j" by simp
    from Cons.IH [OF s] have b: "Suc i \<le> j" "j + length re \<le> Suc i + length cs"
      and m: "match_here re (drop (j - Suc i) cs)" by auto
    from b have "j - i = Suc (j - Suc i)" by arith
    with b m show ?thesis by simp
  qed
qed

lemma regex_exec_Some:
  assumes "regex_exec re text li = (Some (idx, s), li')"
  shows "li \<le> idx" and "li' = idx + length re" and "li' \<le> length text" and "length s = length re"
proof -
  from assms have le: "li \<le> length text"
    by (auto simp: regex_exec_def split: if_splits)
  from assms le obtain j where j: "search re (drop li text) li = Some j"
    and r: "idx = j" "s = take (length re) (drop j text)" "li' = j + length re"
    by (auto simp: regex_exec_def split: option.splits)
  from search_bounds [OF j] le have b: "li \<le> j" "j + length re \<le> length text" by auto
  from b r show "li \<le> idx" and "li' = idx + length re" and "li' \<le> length text"
    and "length s = length re" by auto
qed

text \<open>
  \<^verbatim>\<open>text.match(regex)\<close> with a global regex: the cursor is reset to \<open>0\<close>, \<^verbatim>\<open>exec\<close> is
  called until it returns \<^verbatim>\<open>null\<close>, and the matched texts are collected; after an empty
  match the cursor is advanced by one. The result is \<^verbatim>\<open>null\<close> when nothing matched. The
  cursor is \<open>0\<close> again afterwards.
\<close>

function match_loop :: "regex \<Rightarrow> string \<Rightarrow> nat \<Rightarrow> string list \<Rightarrow> string list" where
  "match_loop re text li acc =
     (case regex_exec re text li of
        (None, li') \<Rightarrow> acc
      | (Some (idx, s), li') \<Rightarrow>
          match_loop re text (if s = [] then Suc li' else li') (acc @ [s]))"
  by pat_completeness auto
termination
proof (relation "measure (\<lambda>(re, text, li, acc). Suc (length text) - li)", goal_cases)
  case 1
  show ?case by simp
next
  case (2 re t li acc x1 li' x2 idx s)
  then have e: "regex_exec re t li = (Some (idx, s), li')" by simp
  from regex_exec_Some [OF e] show ?case by (cases re) auto
qed

definition string_match :: "nat \<Rightarrow> regex \<Rightarrow> string \<Rightarrow> world \<Rightarrow> string list option \<times> world" where
  "string_match k re text w =
     (let ms = match_loop re text 0 []
      in (if ms = [] then None else Some ms, w\<lparr>lastIndex := (lastIndex w)(k := 0)\<rparr>))"

text \<open>
  \<^verbatim>\<open>findDatesInText\<close>: the \<^verbatim>\<open>for\<close> loop over \<^verbatim>\<open>DATE_FORMATS\<close>, pushing each
  pattern's matches onto \<^verbatim>\<open>dates\<close>. The patterns are paired with their positions so
  that each call addresses its own cursor.
\<close>

fun findDates_loop :: "(nat \<times> regex) list \<Rightarrow> string \<Rightarrow> string list \<Rightarrow> world \<Rightarrow> string list \<times> world" where
  "findDates_loop [] text dates w = (dates, w)"
| "findDates_loop ((k, re) # rest) text dates w =
     (case string_match k re text w of
        (None, w') \<Rightarrow> findDates_loop rest text dates w'
      | (Some matches, w') \<Rightarrow> findDates_loop rest text (dates @ matches) w')"

definition findDatesInText :: "string \<Rightarrow> world \<Rightarrow> string list \<times> world" where
  "findDatesInText text w = findDates_loop (enumerate 0 DATE_FORMATS) text [] w"

section \<open>Strict date parsing\<close>

text \<open>
  Modelled from the spec: \<^verbatim>\<open>moment(dateStr, format, true)\<close> and \<^verbatim>\<open>isValid\<close> belong to
  the date library the plugin imports, which is not under the repository's sources. Per
  the spec (sections 3 and 4.1) a string parses strictly under a format only if it has
  exactly the digit counts and separators of the format, with nothing before or after, and
  names a valid calendar date: month 1 to 12, day 1 to the length of that month in that
  year. A format is its sequence of tokens; the month is kept zero-based, as the library
  keeps it; a failed parse (an invalid moment) is \<open>None\<close>.
\<close>

datatype token = YYYY | MM | DD | Sep char

type_synonym format = "token list"

record Moment =
  year :: int
  month :: int
  date :: int

definition digit_val :: "char \<Rightarrow> int" where
  "digit_val c = int (of_char c) - 48"

definition toInt :: "string \<Rightarrow> int" where
  "toInt s = foldl (\<lambda>a c. 10 * a + digit_val c) 0 s"

definition take_digits :: "nat \<Rightarrow> string \<Rightarrow> (int \<times> string) option" where
  "take_digits n s =
     (if n \<le> length s \<and> list_all is_digit (take n s) then Some (toInt (take n s), drop n s)
      else None)"

fun parse_tokens ::
  "format \<Rightarrow> string \<Rightarrow> int option \<times> int option \<times> int option
     \<Rightarrow> (int option \<times> int option \<times> int option) option" where
  "parse_tokens [] s a = (if s = [] then Some a else None)"
| "parse_tokens (YYYY # ts) s (y, m, d) =
     (case take_digits 4 s of None \<Rightarrow> None
      | Some (v, rest) \<Rightarrow> parse_tokens ts rest (Some v, m, d))"
| "parse_tokens (MM # ts) s (y, m, d) =
     (case take_digits 2 s of None \<Rightarrow> None
      | Some (v, rest) \<Rightarrow> parse_tokens ts rest (y, Some (v - 1), d))"
| "parse_tokens (DD # ts) s (y, m, d) =
     (case take_digits 2 s of None \<Rightarrow> None
      | Some (v, rest) \<Rightarrow> parse_tokens ts rest (y, m, Some v))"
| "parse_tokens (Sep c # ts) s a =
     (case s of [] \<Rightarrow> None
      | x # rest \<Rightarrow> if x = c then parse_tokens ts rest a else None)"

definition isLeapYear :: "int \<Rightarrow> bool" where
  "isLeapYear y = ((y mod 4 = 0 \<and> y mod 100 \<noteq> 0) \<or> y mod 400 = 0)"

definition daysInMonth :: "int \<Rightarrow> int \<Rightarrow> int" where
  "daysInMonth y m =
     (if m = 1 then (if isLeapYear y then 29 else 28) else 31 - (m mod 7) mod 2)"

definition moment_strict :: "string \<Rightarrow> format \<Rightarrow> Moment option" where
  "moment_strict s fmt =
     (case parse_tokens fmt s (None, None, None) of
        Some (Some y, Some m, Some d) \<Rightarrow>
          if m < 0 \<or> 11 < m then None
          else if d < 1 \<or> daysInMonth y m < d then None
          else Some \<lparr> year = y, month = m, date = d \<rparr>
      | _ \<Rightarrow> None)"

definition FMT_YMD_DASH :: format where
  "FMT_YMD_DASH = [YYYY, Sep (CHR ''-''), MM, Sep (CHR ''-''), DD]"

definition FMT_MDY_SLASH :: format where
  "FMT_MDY_SLASH = [MM, Sep (CHR ''/''), DD, Sep (CHR ''/''), YYYY]"

definition FMT_DMY_DASH :: format where
  "FMT_DMY_DASH = [DD, Sep (CHR ''-''), MM, Sep (CHR ''-''), YYYY]"

definition FMT_YMD_DOT :: format where
  "FMT_YMD_DOT = [YYYY, Sep (CHR ''.''), MM, Sep (CHR ''.''), DD]"

definition formats :: "format list" where
  "formats = [FMT_YMD_DASH, FMT_MDY_SLASH, FMT_DMY_DASH, FMT_YMD_DOT]"

text \<open>
  \<^verbatim>\<open>parseDate\<close>: the \<^verbatim>\<open>for\<close> loop over the four format strings, returning the first
  valid parse, and \<^verbatim>\<open>null\<close> when the loop runs out.
\<close>

fun parseDate_loop :: "string \<Rightarrow> format list \<Rightarrow> Moment option" where
  "parseDate_loop dateStr [] = None"
| "parseDate_loop dateStr (fmt # rest) =
     (case moment_strict dateStr fmt of
        Some parsed \<Rightarrow> Some parsed
      | None \<Rightarrow> parseDate_loop dateStr rest)"

definition parseDate :: "string \<Rightarrow> Moment option" where
  "parseDate dateStr = parseDate_loop dateStr formats"

section \<open>Age in days\<close>

text \<open>
  Modelled from the spec: \<^verbatim>\<open>now.diff(date, 'days')\<close> is the date library's, not under
  the repository's sources. Per the spec (section 4.2 and the glossary) it is the number
  of whole days between now and the parsed date, truncated towards zero and negative for
  a date in the future. A parsed date stands for its local midnight; \<open>valueOf\<close> is that
  instant on the scale of the clock.
\<close>

definition days_before_year :: "int \<Rightarrow> int" where
  "days_before_year y = 365 * y + (y + 3) div 4 - (y + 99) div 100 + (y + 399) div 400"

definition days_before_month :: "int \<Rightarrow> int \<Rightarrow> int" where
  "days_before_month y m = (\<Sum>k\<leftarrow>[0..<nat m]. daysInMonth y (int k))"

definition MS_PER_DAY :: int where
  "MS_PER_DAY = 86400000"

definition valueOf :: "Moment \<Rightarrow> int" where
  "valueOf d =
     MS_PER_DAY * (days_before_year (year d) - days_before_year 1970
                    + days_before_month (year d) (month d) + (date d - 1))"

definition absFloor_div :: "int \<Rightarrow> int \<Rightarrow> int" where
  "absFloor_div a b = (if a < 0 then - ((- a) div b) else a div b)"

definition moment_diff_days :: "int \<Rightarrow> Moment \<Rightarrow> int" where
  "moment_diff_days now d = absFloor_div (now - valueOf d) MS_PER_DAY"

section \<open>Classification and label\<close>

record colors =
  bg :: string
  text_color :: string

text \<open>
  \<^verbatim>\<open>getHighlightColor\<close>. The clock is read only after a successful parse, once per call.
\<close>

definition getHighlightColor :: "string \<Rightarrow> DateHighlighterSettings \<Rightarrow> world \<Rightarrow> colors \<times> world" where
  "getHighlightColor dateStr settings w =
     (case parseDate dateStr of
        None \<Rightarrow> (\<lparr> bg = oldColor settings, text_color = textColor settings \<rparr>, w)
      | Some d \<Rightarrow>
          (let (today, w') = moment_now w;
               daysSince = moment_diff_days today d
           in if daysSince \<le> recentDays settings then
                (\<lparr> bg = recentColor settings, text_color = textColor settings \<rparr>, w')
              else if daysSince \<le> intermediateDays settings then
                (\<lparr> bg = intermediateColor settings, text_color = textColor settings \<rparr>, w')
              else
                (\<lparr> bg = oldColor settings, text_color = textColor settings \<rparr>, w')))"

text \<open>The decimal numeral of a natural number, as a template string prints it.\<close>

fun show_nat :: "nat \<Rightarrow> string" where
  "show_nat n =
     (if n < 10 then [''0123456789'' ! n]
      else show_nat (n div 10) @ [''0123456789'' ! (n mod 10)])"

declare show_nat.simps [simp del]

text \<open>\<^verbatim>\<open>generateDateTooltip\<close>, with its own reading of the clock.\<close>

definition generateDateTooltip :: "string \<Rightarrow> world \<Rightarrow> string \<times> world" where
  "generateDateTooltip dateStr w =
     (case parseDate dateStr of
        None \<Rightarrow> ('''', w)
      | Some d \<Rightarrow>
          (let (now, w') = moment_now w;
               daysDiff = moment_diff_days now d;
               daysText = show_nat (nat \<bar>daysDiff\<bar>)
           in if daysDiff = 0 then (''Today'', w')
              else if daysDiff = 1 then (''Yesterday'', w')
              else if daysDiff = - 1 then (''Tomorrow'', w')
              else if daysDiff > 0 then (daysText @ '' days ago'', w')
              else (''In '' @ daysText @ '' days'', w')))"

section \<open>The range-set builder\<close>

text \<open>
  \<^verbatim>\<open>RangeSetBuilder\<close> and \<^verbatim>\<open>Decoration.mark\<close> belong to the editor library the plugin
  imports; they are not part of this repository and the spec treats them as the host's
  decoration interface. The model follows the library's \<^verbatim>\<open>add\<close> and \<^verbatim>\<open>addInner\<close>:
  a builder is a chain of layers; a layer remembers the last range it took; a range that
  starts before the last range's start is rejected with the error "Ranges must be added
  sorted by `from` position and `startSide`"; a range that starts inside the last range
  goes to the next layer. A mark without inclusive ends starts on the far side of a mark
  that ends at the same offset, so of the two side values only their order matters.
\<close>

datatype error = RangesNotSorted | NullDereference | Diverges

record Decoration =
  style :: string
  title :: string
  startSide :: int
  endSide :: int

definition Decoration_mark :: "colors \<Rightarrow> string \<Rightarrow> Decoration" where
  "Decoration_mark c tooltip =
     \<lparr> style = ''background-color: '' @ bg c @ ''; color: '' @ text_color c @ '';'',
       title = tooltip, startSide = 500000000, endSide = - 600000000 \<rparr>"

record layer =
  lastFrom :: int
  lastTo :: int
  last :: "Decoration option"
  ranges :: "(nat \<times> nat \<times> Decoration) list"

definition empty_layer :: layer where
  "empty_layer = \<lparr> lastFrom = - 1000000000, lastTo = - 1000000000, last = None, ranges = [] \<rparr>"

text \<open>
  \<^verbatim>\<open>addInner\<close>: \<open>Inl\<close> is the thrown error, \<open>Inr None\<close> the result \<^verbatim>\<open>false\<close> (the range
  overlaps the last one of this layer), \<open>Inr (Some l)\<close> the result \<^verbatim>\<open>true\<close> with the layer
  updated. The sides of the last value are read only when the offsets are equal.
\<close>

definition addInner :: "layer \<Rightarrow> nat \<Rightarrow> nat \<Rightarrow> Decoration \<Rightarrow> error + layer option" where
  "addInner l frm to v =
     (if int frm - lastTo l = 0 \<and> last l = None then Inl NullDereference
      else
        let diff = (if int frm - lastTo l \<noteq> 0 then int frm - lastTo l
                    else startSide v - endSide (the (last l)))
        in if diff \<le> 0 \<and> int frm - lastFrom l = 0 \<and> last l = None then Inl NullDereference
           else if diff \<le> 0 \<and>
                   (if int frm - lastFrom l \<noteq> 0 then int frm - lastFrom l
                    else startSide v - startSide (the (last l))) < 0
           then Inl RangesNotSorted
           else if diff < 0 then Inr None
           else Inr (Some (l\<lparr> lastFrom := int frm, lastTo := int to, last := Some v,
                              ranges := ranges l @ [(frm, to, v)] \<rparr>)))"

text \<open>
  \<^verbatim>\<open>add\<close>: try this layer, then the next one, creating it when there is none. A new
  layer takes any range at a non-negative offset, so the last case does not arise.
\<close>

fun builder_add :: "layer list \<Rightarrow> nat \<Rightarrow> nat \<Rightarrow> Decoration \<Rightarrow> error + layer list" where
  "builder_add [] frm to v =
     (case addInner empty_layer frm to v of
        Inl e \<Rightarrow> Inl e
      | Inr (Some l') \<Rightarrow> Inr [l']
      | Inr None \<Rightarrow> Inl Diverges)"
| "builder_add (l # ls) frm to v =
     (case addInner l frm to v of
        Inl e \<Rightarrow> Inl e
      | Inr (Some l') \<Rightarrow> Inr (l' # ls)
      | Inr None \<Rightarrow> (case builder_add ls frm to v of Inl e \<Rightarrow> Inl e | Inr ls' \<Rightarrow> Inr (l # ls')))"

definition new_RangeSetBuilder :: "layer list" where
  "new_RangeSetBuilder = [empty_layer]"

definition builder_finish :: "layer list \<Rightarrow> (nat \<times> nat \<times> Decoration) list" where
  "builder_finish b = concat (map ranges b)"

section \<open>The content pass\<close>

record EditorView =
  doc :: string
  visibleRanges :: "(nat \<times> nat) list"

definition sliceString :: "string \<Rightarrow> nat \<Rightarrow> nat \<Rightarrow> string" where
  "sliceString d frm to = take (to - frm) (drop frm d)"

lemma getHighlightColor_lastIndex [simp]:
  "lastIndex (snd (getHighlightColor s settings w)) = lastIndex w"
  by (simp add: getHighlightColor_def moment_now_def Let_def split: option.splits)

lemma generateDateTooltip_lastIndex [simp]:
  "lastIndex (snd (generateDateTooltip s w)) = lastIndex w"
  by (simp add: generateDateTooltip_def moment_now_def Let_def split: option.splits)

text \<open>
  The \<^verbatim>\<open>while ((match = regex.exec(text)) !== null)\<close> loop for the pattern at position
  \<open>k\<close>. Each round reads and writes that pattern's cursor in the world. When
  \<^verbatim>\<open>builder.add\<close> throws, the exception leaves the loop with the cursor where
  \<^verbatim>\<open>exec\<close> put it. A pattern that could match without consuming a character would
  keep the source loop at the same cursor for ever; that outcome is \<open>Diverges\<close>.
\<close>

function exec_loop ::
  "DateHighlighterSettings \<Rightarrow> nat \<Rightarrow> regex \<Rightarrow> string \<Rightarrow> nat \<Rightarrow> layer list \<Rightarrow> world
     \<Rightarrow> (error + layer list) \<times> world" where
  "exec_loop settings k re text frm b w =
     (case regex_exec re text (lastIndex w k) of
        (None, li') \<Rightarrow> (Inr b, w\<lparr>lastIndex := (lastIndex w)(k := li')\<rparr>)
      | (Some (idx, dateStr), li') \<Rightarrow>
          if li' \<le> lastIndex w k then (Inl Diverges, w)
          else
            let w1 = w\<lparr>lastIndex := (lastIndex w)(k := li')\<rparr>;
                start = frm + idx;
                endpos = start + length dateStr;
                cw = getHighlightColor dateStr settings w1;
                tw = generateDateTooltip dateStr (snd cw)
            in case builder_add b start endpos (Decoration_mark (fst cw) (fst tw)) of
                 Inl e \<Rightarrow> (Inl e, snd tw)
               | Inr b' \<Rightarrow> exec_loop settings k re text frm b' (snd tw))"
  by pat_completeness auto
termination
proof (relation "measure (\<lambda>(settings, k, re, t, frm, b, w). Suc (length t) - lastIndex w k)",
    goal_cases)
  case 1
  show ?case by simp
next
  case (2 settings k re t frm b w x1 li' x2 idx dateStr w1 start endpos cw tw b')
  then have e: "regex_exec re t (lastIndex w k) = (Some (idx, dateStr), li')" by simp
  from regex_exec_Some(3) [OF e] 2 show ?case by simp
qed

text \<open>The \<^verbatim>\<open>for (const regex of DATE_FORMATS)\<close> loop over one visible range.\<close>

fun formats_loop ::
  "DateHighlighterSettings \<Rightarrow> (nat \<times> regex) list \<Rightarrow> string \<Rightarrow> nat \<Rightarrow> layer list \<Rightarrow> world
     \<Rightarrow> (error + layer list) \<times> world" where
  "formats_loop settings [] text frm b w = (Inr b, w)"
| "formats_loop settings ((k, re) # rest) text frm b w =
     (case exec_loop settings k re text frm b w of
        (Inl e, w') \<Rightarrow> (Inl e, w')
      | (Inr b', w') \<Rightarrow> formats_loop settings rest text frm b' w')"

text \<open>The \<^verbatim>\<open>for (let { from, to } of view.visibleRanges)\<close> loop.\<close>

fun ranges_loop ::
  "DateHighlighterSettings \<Rightarrow> string \<Rightarrow> (nat \<times> nat) list \<Rightarrow> layer list \<Rightarrow> world
     \<Rightarrow> (error + layer list) \<times> world" where
  "ranges_loop settings d [] b w = (Inr b, w)"
| "ranges_loop settings d ((frm, to) # rest) b w =
     (case formats_loop settings (enumerate 0 DATE_FORMATS) (sliceString d frm to) frm b w of
        (Inl e, w') \<Rightarrow> (Inl e, w')
      | (Inr b', w') \<Rightarrow> ranges_loop settings d rest b' w')"

text \<open>
  \<^verbatim>\<open>buildDecorations\<close>: \<open>Inl\<close> is an exception that leaves the function, \<open>Inr\<close> the
  returned set of marks (\<^verbatim>\<open>Decoration.none\<close> is the empty one).
\<close>

definition buildDecorations ::
  "DateHighlighterSettings \<Rightarrow> EditorView \<Rightarrow> world
     \<Rightarrow> (error + (nat \<times> nat \<times> Decoration) list) \<times> world" where
  "buildDecorations settings view w =
     (if \<not> highlightInlineContent settings then (Inr [], w)
      else case ranges_loop settings (doc view) (visibleRanges view) new_RangeSetBuilder w of
             (Inl e, w') \<Rightarrow> (Inl e, w')
           | (Inr b, w') \<Rightarrow> (Inr (builder_finish b), w'))"

section \<open>The filename pass\<close>

record TFile =
  name :: string
  path :: string

text \<open>
  The body of the \<^verbatim>\<open>forEach\<close> in \<^verbatim>\<open>updateFileStyles\<close>: the file's path and colour
  pair when its name holds a date, nothing otherwise. This is the first version of the source; the
  refactored one, which scans \<^verbatim>\<open>file.path\<close>, follows further down.
\<close>

definition file_style ::
  "DateHighlighterSettings \<Rightarrow> TFile \<Rightarrow> world \<Rightarrow> (string \<times> colors) option \<times> world" where
  "file_style settings file w =
     (let (dates, w1) = findDatesInText (name file) w
      in case dates of
           [] \<Rightarrow> (None, w1)
         | dateStr # _ \<Rightarrow>
             (let (c, w2) = getHighlightColor dateStr settings w1
              in (Some (path file, c), w2)))"

text \<open>
  The style rule appended for such a file. \<^verbatim>\<open>CSS.escape\<close> is the browser's; it is the
  parameter \<open>escape\<close>.
\<close>

definition style_rule :: "(string \<Rightarrow> string) \<Rightarrow> string \<times> colors \<Rightarrow> string" where
  "style_rule escape pc =
     [CHR 0x0A] @ replicate 20 (CHR '' '') @ ''.nav-file-title[data-path='' @ [CHR 0x22]
       @ escape (fst pc) @ [CHR 0x22] @ ''] {''
     @ [CHR 0x0A] @ replicate 24 (CHR '' '') @ ''background-color: '' @ bg (snd pc) @ '' !important;''
     @ [CHR 0x0A] @ replicate 24 (CHR '' '') @ ''color: '' @ text_color (snd pc) @ '' !important;''
     @ [CHR 0x0A] @ replicate 20 (CHR '' '') @ ''}''
     @ [CHR 0x0A] @ replicate 16 (CHR '' '')"

fun files_loop ::
  "(string \<Rightarrow> string) \<Rightarrow> DateHighlighterSettings \<Rightarrow> TFile list \<Rightarrow> string \<Rightarrow> world
     \<Rightarrow> string \<times> world" where
  "files_loop escape settings [] styleContent w = (styleContent, w)"
| "files_loop escape settings (file # rest) styleContent w =
     (case file_style settings file w of
        (None, w') \<Rightarrow> files_loop escape settings rest styleContent w'
      | (Some pc, w') \<Rightarrow>
          files_loop escape settings rest (styleContent @ style_rule escape pc) w')"

text \<open>\<^verbatim>\<open>updateFileStyles\<close>: the new text of the style element.\<close>

definition updateFileStyles ::
  "(string \<Rightarrow> string) \<Rightarrow> DateHighlighterSettings \<Rightarrow> TFile list \<Rightarrow> world \<Rightarrow> string \<times> world" where
  "updateFileStyles escape settings files w =
     (if \<not> highlightFilenames settings then ('''', w)
      else files_loop escape settings files '''' w)"

section \<open>Reference definitions\<close>

text \<open>
  The three age categories (\<^verbatim>\<open>enum DateCategory\<close> in the refactored source) and the
  bucketing rule in the words of the spec, section 4.2: inclusive boundaries, evaluated in
  this order. \<open>category_colors\<close> resolves a category to its colour pair.
\<close>

datatype DateCategory = Recent | Intermediate | Old

definition bucket :: "int \<Rightarrow> int \<Rightarrow> int \<Rightarrow> DateCategory" where
  "bucket daysSince recent intermediate =
     (if daysSince \<le> recent then Recent
      else if daysSince \<le> intermediate then Intermediate
      else Old)"

definition category_colors :: "DateHighlighterSettings \<Rightarrow> DateCategory \<Rightarrow> colors" where
  "category_colors settings cat =
     \<lparr> bg = (case cat of
               Recent \<Rightarrow> recentColor settings
             | Intermediate \<Rightarrow> intermediateColor settings
             | Old \<Rightarrow> oldColor settings),
       text_color = textColor settings \<rparr>"

text \<open>
  The refactored source's \<^verbatim>\<open>DateService.findDatesInText\<close>: \<^verbatim>\<open>flatMap\<close> over the
  patterns, each callback returning \<^verbatim>\<open>text.match(regex) || []\<close>.
\<close>

fun flatMap_loop :: "(nat \<times> regex) list \<Rightarrow> string \<Rightarrow> world \<Rightarrow> string list \<times> world" where
  "flatMap_loop [] text w = ([], w)"
| "flatMap_loop ((k, re) # rest) text w =
     (case string_match k re text w of
        (m, w') \<Rightarrow>
          (case flatMap_loop rest text w' of
             (r, w'') \<Rightarrow> ((case m of None \<Rightarrow> [] | Some matches \<Rightarrow> matches) @ r, w'')))"

definition DateService_findDatesInText :: "string \<Rightarrow> world \<Rightarrow> string list \<times> world" where
  "DateService_findDatesInText text w = flatMap_loop (enumerate 0 DATE_FORMATS) text w"

text \<open>
  The scan in the words of the spec, section 4.1: the input is scanned left to right with
  non-overlapping matching; once characters are consumed by a match, scanning resumes
  after it. \<open>scan re cs i\<close> lists the matches with their offsets, \<open>cs\<close> being the text from
  offset \<open>i\<close> on.
\<close>

fun scan :: "regex \<Rightarrow> string \<Rightarrow> nat \<Rightarrow> (nat \<times> string) list" where
  "scan re [] i = []"
| "scan re (c # cs) i =
     (if match_here re (c # cs)
      then (i, take (length re) (c # cs)) # scan re (drop (length re - 1) cs) (i + length re)
      else scan re cs (Suc i))"

definition nonoverlapping_matches :: "regex \<Rightarrow> string \<Rightarrow> string list" where
  "nonoverlapping_matches re text = map snd (scan re text 0)"

text \<open>The shape a format demands, as a pattern: the digit counts and the separators.\<close>

fun token_regex :: "token \<Rightarrow> regex" where
  "token_regex YYYY = digits 4"
| "token_regex MM = digits 2"
| "token_regex DD = digits 2"
| "token_regex (Sep c) = [Lit c]"

definition format_regex :: "format \<Rightarrow> regex" where
  "format_regex fmt = concat (map token_regex fmt)"

declare match_loop.simps [simp del]

declare exec_loop.simps [simp del]

text \<open>
  The match that appears earliest in a text, whichever pattern it belongs to: the first
  offset, from the left, at which one of the four patterns matches.
\<close>

fun leftmost_match :: "string \<Rightarrow> string option" where
  "leftmost_match [] = None"
| "leftmost_match (c # cs) =
     (case find (\<lambda>re. match_here re (c # cs)) DATE_FORMATS of
        Some re \<Rightarrow> Some (take (length re) (c # cs))
      | None \<Rightarrow> leftmost_match cs)"

text \<open>A file whose name holds two dates, the later-declared pattern's first.\<close>

definition file_2dates :: TFile where
  "file_2dates = \<lparr> name = ''30-03-2020 2024-11-01.md'', path = ''notes/30-03-2020 2024-11-01.md'' \<rparr>"

text \<open>
  The classifier's contract in the words of the spec, section 4.2, with the current
  moment as an explicit argument: \<open>classify\<close> gives the colour pair and \<open>relative_label\<close>
  the label of a raw match at the instant \<open>now\<close>.
\<close>

definition classify :: "DateHighlighterSettings \<Rightarrow> int \<Rightarrow> string \<Rightarrow> colors" where
  "classify settings now raw =
     (case parseDate raw of
        None \<Rightarrow> category_colors settings Old
      | Some d \<Rightarrow>
          category_colors settings
            (bucket (moment_diff_days now d) (recentDays settings) (intermediateDays settings)))"

definition relative_label :: "int \<Rightarrow> string \<Rightarrow> string" where
  "relative_label now raw =
     (case parseDate raw of
        None \<Rightarrow> ''''
      | Some d \<Rightarrow>
          (let n = moment_diff_days now d
           in if n = 0 then ''Today''
              else if n = 1 then ''Yesterday''
              else if n = - 1 then ''Tomorrow''
              else if 0 < n then show_nat (nat n) @ '' days ago''
              else ''In '' @ show_nat (nat (- n)) @ '' days''))"

text \<open>
  The content pass in the words of the spec, section 4.3, with one \<open>now\<close> for the whole
  pass and a stateless scan: every match of every pattern in every visible range, moved
  to document offsets, with its colours and label at \<open>now\<close>, offered to the builder in
  the order range, pattern, offset.
\<close>

definition mark_of ::
  "DateHighlighterSettings \<Rightarrow> int \<Rightarrow> nat \<Rightarrow> nat \<times> string \<Rightarrow> nat \<times> nat \<times> Decoration" where
  "mark_of settings now frm m =
     (frm + fst m, frm + fst m + length (snd m),
      Decoration_mark (classify settings now (snd m)) (relative_label now (snd m)))"

fun add_all :: "layer list \<Rightarrow> (nat \<times> nat \<times> Decoration) list \<Rightarrow> error + layer list" where
  "add_all b [] = Inr b"
| "add_all b ((frm, to, v) # rest) =
     (case builder_add b frm to v of
        Inl e \<Rightarrow> Inl e
      | Inr b' \<Rightarrow> add_all b' rest)"

definition range_marks ::
  "DateHighlighterSettings \<Rightarrow> int \<Rightarrow> string \<Rightarrow> nat \<times> nat \<Rightarrow> (nat \<times> nat \<times> Decoration) list" where
  "range_marks settings now d r =
     concat (map (\<lambda>re. map (mark_of settings now (fst r)) (scan re (sliceString d (fst r) (snd r)) 0))
                 DATE_FORMATS)"

definition highlight_visible ::
  "DateHighlighterSettings \<Rightarrow> EditorView \<Rightarrow> int \<Rightarrow> error + (nat \<times> nat \<times> Decoration) list" where
  "highlight_visible settings view now =
     (if \<not> highlightInlineContent settings then Inr []
      else case add_all new_RangeSetBuilder
                  (concat (map (range_marks settings now (doc view)) (visibleRanges view))) of
             Inl e \<Rightarrow> Inl e
           | Inr b \<Rightarrow> Inr (builder_finish b))"

text \<open>
  A world in which midnight passes between the first and the second reading of the clock:
  2024-03-30 23:59:59.999, then 2024-03-31 00:00:00.000.
\<close>

definition world_over_midnight :: world where
  "world_over_midnight =
     \<lparr> clock = (\<lambda>n. if n = 0 then 1711843199999 else 1711843200000), reads = 0,
       lastIndex = (\<lambda>k. 0) \<rparr>"

text \<open>
  The filename pass of the refactored source. \<^verbatim>\<open>DateService.getHighlightColor\<close> reads
  the same settings under other names (\<^verbatim>\<open>colors[DateCategory.Recent]\<close> is
  \<^verbatim>\<open>recentColor\<close>, \<^verbatim>\<open>periods.recent\<close> is \<^verbatim>\<open>recentDays\<close>, and so on) and uses early
  returns; \<^verbatim>\<open>DateService.parseDate\<close> is the loop of \<^verbatim>\<open>parseDate\<close> over the same four
  formats. \<^verbatim>\<open>generateFileStyles\<close> scans \<^verbatim>\<open>file.path\<close>, not \<^verbatim>\<open>file.name\<close>, maps every
  file to its rule or to the empty string, and joins the results.
\<close>

definition DateService_getHighlightColor ::
  "string \<Rightarrow> DateHighlighterSettings \<Rightarrow> world \<Rightarrow> colors \<times> world" where
  "DateService_getHighlightColor dateStr settings w =
     (case parseDate dateStr of
        None \<Rightarrow> (\<lparr> bg = oldColor settings, text_color = textColor settings \<rparr>, w)
      | Some d \<Rightarrow>
          (let (now, w') = moment_now w;
               daysSince = moment_diff_days now d
           in if daysSince \<le> recentDays settings then
                (\<lparr> bg = recentColor settings, text_color = textColor settings \<rparr>, w')
              else if daysSince \<le> intermediateDays settings then
                (\<lparr> bg = intermediateColor settings, text_color = textColor settings \<rparr>, w')
              else
                (\<lparr> bg = oldColor settings, text_color = textColor settings \<rparr>, w')))"

definition DateService_file_style ::
  "DateHighlighterSettings \<Rightarrow> TFile \<Rightarrow> world \<Rightarrow> (string \<times> colors) option \<times> world" where
  "DateService_file_style settings file w =
     (let (dates, w1) = DateService_findDatesInText (path file) w
      in case dates of
           [] \<Rightarrow> (None, w1)
         | dateStr # _ \<Rightarrow>
             (let (c, w2) = DateService_getHighlightColor dateStr settings w1
              in (Some (path file, c), w2)))"

definition DateService_style_rule :: "(string \<Rightarrow> string) \<Rightarrow> string \<times> colors \<Rightarrow> string" where
  "DateService_style_rule escape pc =
     [CHR 0x0A] @ replicate 10 (CHR '' '') @ ''.nav-file-title[data-path='' @ [CHR 0x22]
       @ escape (fst pc) @ [CHR 0x22] @ ''] {''
     @ [CHR 0x0A] @ replicate 12 (CHR '' '') @ ''background-color: '' @ bg (snd pc) @ '' !important;''
     @ [CHR 0x0A] @ replicate 12 (CHR '' '') @ ''color: '' @ text_color (snd pc) @ '' !important;''
     @ [CHR 0x0A] @ replicate 10 (CHR '' '') @ ''}''
     @ [CHR 0x0A] @ replicate 8 (CHR '' '')"

fun generateFileStyles_map ::
  "(string \<Rightarrow> string) \<Rightarrow> DateHighlighterSettings \<Rightarrow> TFile list \<Rightarrow> world
     \<Rightarrow> string list \<times> world" where
  "generateFileStyles_map escape settings [] w = ([], w)"
| "generateFileStyles_map escape settings (file # rest) w =
     (case DateService_file_style settings file w of
        (r, w') \<Rightarrow>
          (case generateFileStyles_map escape settings rest w' of
             (rs, w'') \<Rightarrow>
               ((case r of None \<Rightarrow> '''' | Some pc \<Rightarrow> DateService_style_rule escape pc) # rs, w'')))"

definition generateFileStyles ::
  "(string \<Rightarrow> string) \<Rightarrow> DateHighlighterSettings \<Rightarrow> TFile list \<Rightarrow> world \<Rightarrow> string \<times> world" where
  "generateFileStyles escape settings files w =
     (case generateFileStyles_map escape settings files w of (rs, w') \<Rightarrow> (concat rs, w'))"

definition updateFileStyles_refactored ::
  "(string \<Rightarrow> string) \<Rightarrow> DateHighlighterSettings \<Rightarrow> TFile list \<Rightarrow> world \<Rightarrow> string \<times> world" where
  "updateFileStyles_refactored escape settings files w =
     (if \<not> highlightFilenames settings then ('''', w)
      else generateFileStyles escape settings files w)"

text \<open>
  The match the filename pass uses, in words: the leftmost match of the first pattern, in
  declaration order, that matches anywhere in the text.
\<close>

fun first_listed :: "regex list \<Rightarrow> string \<Rightarrow> string option" where
  "first_listed [] t = None"
| "first_listed (re # res) t =
     (case search re t 0 of
        Some i \<Rightarrow> Some (take (length re) (drop i t))
      | None \<Rightarrow> first_listed res t)"

definition first_listed_match :: "string \<Rightarrow> string option" where
  "first_listed_match t = first_listed DATE_FORMATS t"

text \<open>A file whose folder and whose name each hold a date.\<close>

definition file_path_dates :: TFile where
  "file_path_dates = \<lparr> name = ''2024-11-01.md'', path = ''2020-01-01/2024-11-01.md'' \<rparr>"

text \<open>
  A world whose clock shows the instant \<open>now\<close> at every reading and whose regex cursors
  are all at the start, as they are when the module is loaded.
\<close>

definition world_at :: "int \<Rightarrow> world" where
  "world_at now = \<lparr> clock = (\<lambda>n. now), reads = 0, lastIndex = (\<lambda>k. 0) \<rparr>"

section \<open>Scanning: the cursor loop and the left-to-right scan\<close>

lemma match_here_length: "match_here re cs \<Longrightarrow> length re \<le> length cs"
  by (induction re cs rule: match_here.induct) auto

lemma scan_search_None: "search re cs i = None \<Longrightarrow> scan re cs i = []"
  by (induction cs arbitrary: i) (auto split: if_splits)

lemma scan_first_match:
  assumes "re \<noteq> []" and "search re cs i = Some j"
  shows "scan re cs i =
           (j, take (length re) (drop (j - i) cs)) # scan re (drop (j - i + length re) cs) (j + length re)"
  using assms(2)
proof (induction cs arbitrary: i)
  case Nil
  with assms(1) show ?case by (cases re) auto
next
  case (Cons c cs)
  show ?case
  proof (cases "match_here re (c # cs)")
    case True
    with Cons.prems have "j = i" by simp
    moreover from assms(1) have "drop (length re - 1) cs = drop (length re) (c # cs)"
      by (cases re) auto
    ultimately show ?thesis using True by simp
  next
    case False
    with Cons.prems have s: "search re cs (Suc i) = Some j" by simp
    from search_bounds [OF s] have "Suc i \<le> j" by simp
    then have e: "j - i = Suc (j - Suc i)" by arith
    from Cons.IH [OF s] False show ?thesis by (simp add: e)
  qed
qed

lemma match_loop_scan:
  "re \<noteq> [] \<Longrightarrow> li \<le> length t \<Longrightarrow>
     match_loop re t li acc = acc @ map snd (scan re (drop li t) li)"
proof (induction re t li acc rule: match_loop.induct)
  case (1 re t li acc)
  note ne_re = \<open>re \<noteq> []\<close> and le = \<open>li \<le> length t\<close>
  show ?case
  proof (cases "search re (drop li t) li")
    case None
    with le have "regex_exec re t li = (None, 0)" by (simp add: regex_exec_def)
    moreover from None have "scan re (drop li t) li = []" by (rule scan_search_None)
    ultimately show ?thesis by (simp add: match_loop.simps [of re t li])
  next
    case (Some j)
    let ?s = "take (length re) (drop j t)"
    from Some le have e: "regex_exec re t li = (Some (j, ?s), j + length re)"
      by (simp add: regex_exec_def)
    from regex_exec_Some [OF e] have b: "li \<le> j" "j + length re \<le> length t" "length ?s = length re"
      by auto
    from ne_re b(3) have ne: "?s \<noteq> []" by (cases re) auto
    have ih: "match_loop re t (j + length re) (acc @ [?s])
                = (acc @ [?s]) @ map snd (scan re (drop (j + length re) t) (j + length re))"
      using "1.IH" [OF e [symmetric] refl refl] ne ne_re b(2) by simp
    from b(1) have d: "drop (j - li) (drop li t) = drop j t"
      "drop (j - li + length re) (drop li t) = drop (j + length re) t"
      by (simp_all add: add.commute)
    have sc: "scan re (drop li t) li = (j, ?s) # scan re (drop (j + length re) t) (j + length re)"
      using scan_first_match [OF ne_re Some] by (simp only: d)
    have "match_loop re t li acc = match_loop re t (j + length re) (acc @ [?s])"
      using e ne by (simp add: match_loop.simps [of re t li])
    with ih sc show ?thesis by simp
  qed
qed

lemma string_match_scan:
  "re \<noteq> [] \<Longrightarrow> fst (string_match k re t w) =
     (if scan re t 0 = [] then None else Some (nonoverlapping_matches re t))"
  using match_loop_scan [of re 0 t "[]"]
  by (simp add: string_match_def nonoverlapping_matches_def Let_def)

lemma findDates_loop_concat:
  "\<forall>p\<in>set krs. snd p \<noteq> [] \<Longrightarrow>
     fst (findDates_loop krs t dates w) = dates @ concat (map (\<lambda>p. nonoverlapping_matches (snd p) t) krs)"
proof (induction krs arbitrary: dates w)
  case Nil
  show ?case by simp
next
  case (Cons kr krs)
  obtain k re where kr: "kr = (k, re)" by (cases kr)
  with Cons.prems have ne: "re \<noteq> []" by simp
  from Cons.prems have rest: "\<forall>p\<in>set krs. snd p \<noteq> []" by simp
  obtain m w' where sm: "string_match k re t w = (m, w')" by (cases "string_match k re t w")
  from string_match_scan [OF ne, of k t w] sm
  have m: "m = (if scan re t 0 = [] then None else Some (nonoverlapping_matches re t))" by simp
  show ?case
  proof (cases "scan re t 0 = []")
    case True
    with m sm kr Cons.IH [OF rest] show ?thesis by (simp add: nonoverlapping_matches_def)
  next
    case False
    with m sm kr Cons.IH [OF rest] show ?thesis by simp
  qed
qed

lemma DATE_FORMATS_nonempty: "\<forall>p\<in>set (enumerate 0 DATE_FORMATS). snd p \<noteq> []"
  by (simp add: DATE_FORMATS_def enumerate_eq_zip RE_YMD_DASH_def RE_MDY_SLASH_def RE_DMY_DASH_def RE_YMD_DOT_def digits_def)

lemma findDatesInText_concat:
  "fst (findDatesInText t w) =
     nonoverlapping_matches RE_YMD_DASH t @ nonoverlapping_matches RE_MDY_SLASH t
       @ nonoverlapping_matches RE_DMY_DASH t @ nonoverlapping_matches RE_YMD_DOT t"
  unfolding findDatesInText_def findDates_loop_concat [OF DATE_FORMATS_nonempty]
  by (simp add: DATE_FORMATS_def enumerate_eq_zip)

lemma flatMap_loop_concat:
  "\<forall>p\<in>set krs. snd p \<noteq> [] \<Longrightarrow>
     fst (flatMap_loop krs t w) = concat (map (\<lambda>p. nonoverlapping_matches (snd p) t) krs)"
proof (induction krs arbitrary: w)
  case Nil
  show ?case by simp
next
  case (Cons kr krs)
  obtain k re where kr: "kr = (k, re)" by (cases kr)
  with Cons.prems have ne: "re \<noteq> []" by simp
  from Cons.prems have rest: "\<forall>p\<in>set krs. snd p \<noteq> []" by simp
  obtain m w' where sm: "string_match k re t w = (m, w')" by (cases "string_match k re t w")
  from string_match_scan [OF ne, of k t w] sm
  have m: "m = (if scan re t 0 = [] then None else Some (nonoverlapping_matches re t))" by simp
  obtain r w'' where fl: "flatMap_loop krs t w' = (r, w'')" by (cases "flatMap_loop krs t w'")
  with Cons.IH [OF rest, of w'] have r: "r = concat (map (\<lambda>p. nonoverlapping_matches (snd p) t) krs)"
    by simp
  show ?case
  proof (cases "scan re t 0 = []")
    case True
    with m sm kr fl r show ?thesis by (simp add: nonoverlapping_matches_def)
  next
    case False
    with m sm kr fl r show ?thesis by simp
  qed
qed

lemma match_here_take: "match_here re cs \<Longrightarrow> match_here re (take (length re) cs)"
  by (induction re cs rule: match_here.induct) auto

lemma scan_member:
  "(j, s) \<in> set (scan re cs i) \<Longrightarrow>
     i \<le> j \<and> j + length re \<le> i + length cs \<and> s = take (length re) (drop (j - i) cs) \<and> match_here re s"
proof (induction re cs i rule: scan.induct)
  case (1 re i)
  then show ?case by simp
next
  case (2 re c cs i)
  show ?case
  proof (cases "match_here re (c # cs)")
    case True
    note m = True
    from match_here_length [OF m] have len: "length re \<le> Suc (length cs)" by simp
    show ?thesis
    proof (cases "(j, s) = (i, take (length re) (c # cs))")
      case True
      have "match_here re (take (length re) (c # cs))" using m by (rule match_here_take)
      with True len show ?thesis by auto
    next
      case False
      with m "2.prems" have mem: "(j, s) \<in> set (scan re (drop (length re - 1) cs) (i + length re))"
        by auto
      from "2.IH"(1) [OF m mem] have ih: "i + length re \<le> j"
        "j + length re \<le> i + length re + length (drop (length re - 1) cs)"
        "s = take (length re) (drop (j - (i + length re)) (drop (length re - 1) cs))"
        "match_here re s" by auto
      show ?thesis
      proof (cases "re = []")
        case True
        with ih show ?thesis by simp
      next
        case False
        then have pos: "0 < length re" by simp
        with ih(1) have e: "j - i = Suc (j - (i + length re) + (length re - 1))" by arith
        from pos len have "length cs - (length re - 1) + length re = Suc (length cs)" by arith
        then have "length (drop (length re - 1) cs) + length re = Suc (length cs)" by simp
        with ih e show ?thesis by (simp add: add.commute)
      qed
    qed
  next
    case False
    with "2.prems" have mem: "(j, s) \<in> set (scan re cs (Suc i))" by simp
    from "2.IH"(2) [OF False mem] have ih: "Suc i \<le> j" "j + length re \<le> Suc i + length cs"
      "s = take (length re) (drop (j - Suc i) cs)" "match_here re s" by auto
    from ih(1) have "j - i = Suc (j - Suc i)" by arith
    with ih show ?thesis by simp
  qed
qed

lemmas RE_defs = RE_YMD_DASH_def RE_MDY_SLASH_def RE_DMY_DASH_def RE_YMD_DOT_def digits_def

lemma RE_explicit:
  "RE_YMD_DASH = [Digit, Digit, Digit, Digit, Lit (CHR ''-''), Digit, Digit, Lit (CHR ''-''), Digit, Digit]"
  "RE_MDY_SLASH = [Digit, Digit, Lit (CHR ''/''), Digit, Digit, Lit (CHR ''/''), Digit, Digit, Digit, Digit]"
  "RE_DMY_DASH = [Digit, Digit, Lit (CHR ''-''), Digit, Digit, Lit (CHR ''-''), Digit, Digit, Digit, Digit]"
  "RE_YMD_DOT = [Digit, Digit, Digit, Digit, Lit (CHR ''.''), Digit, Digit, Lit (CHR ''.''), Digit, Digit]"
  by (simp_all add: RE_defs eval_nat_numeral)

lemma match_here_nth:
  "match_here re s \<Longrightarrow> i < length re \<Longrightarrow> atom_matches (re ! i) (s ! i)"
proof (induction re s arbitrary: i rule: match_here.induct)
  case (3 a as c cs)
  then show ?case by (cases i) auto
qed simp_all

text \<open>What a match of each pattern says about the characters at offsets 2 and 4.\<close>

lemma shape_marks:
  "match_here RE_YMD_DASH s \<Longrightarrow> is_digit (s ! 2) \<and> s ! 4 = CHR ''-''"
  "match_here RE_MDY_SLASH s \<Longrightarrow> s ! 2 = CHR ''/''"
  "match_here RE_DMY_DASH s \<Longrightarrow> s ! 2 = CHR ''-''"
  "match_here RE_YMD_DOT s \<Longrightarrow> is_digit (s ! 2) \<and> s ! 4 = CHR ''.''"
  using match_here_nth [of _ s 2] match_here_nth [of _ s 4]
  by (fastforce simp: RE_explicit)+

lemma not_digit_separators:
  "\<not> is_digit (CHR ''/'')" "\<not> is_digit (CHR ''-'')" "\<not> is_digit (CHR ''.'')"
  by (simp_all add: is_digit_def)

lemma shape_cases:
  assumes "re \<in> set DATE_FORMATS" and "match_here re s"
  shows "(re = RE_YMD_DASH \<and> is_digit (s ! 2) \<and> s ! 4 = CHR ''-'') \<or>
         (re = RE_MDY_SLASH \<and> s ! 2 = CHR ''/'') \<or>
         (re = RE_DMY_DASH \<and> s ! 2 = CHR ''-'') \<or>
         (re = RE_YMD_DOT \<and> is_digit (s ! 2) \<and> s ! 4 = CHR ''.'')"
proof -
  from assms(1) consider "re = RE_YMD_DASH" | "re = RE_MDY_SLASH" | "re = RE_DMY_DASH" | "re = RE_YMD_DOT"
    by (auto simp: DATE_FORMATS_def)
  then show ?thesis
  proof cases
    case 1
    with assms(2) shape_marks(1) [of s] show ?thesis by simp
  next
    case 2
    with assms(2) shape_marks(2) [of s] show ?thesis by simp
  next
    case 3
    with assms(2) shape_marks(3) [of s] show ?thesis by simp
  next
    case 4
    with assms(2) shape_marks(4) [of s] show ?thesis by simp
  qed
qed

lemma shapes_exclusive:
  assumes "re \<in> set DATE_FORMATS" and "re' \<in> set DATE_FORMATS"
    and "match_here re s" and "match_here re' s"
  shows "re = re'"
  using shape_cases [OF assms(1,3)] shape_cases [OF assms(2,4)] not_digit_separators
  by (elim disjE conjE) simp_all

lemma scan_sorted: "sorted_wrt (\<lambda>a b. fst a + length (snd a) \<le> fst b) (scan re cs i)"
proof (induction re cs i rule: scan.induct)
  case (1 re i)
  show ?case by simp
next
  case (2 re c cs i)
  show ?case
  proof (cases "match_here re (c # cs)")
    case True
    from match_here_length [OF True] have len: "length (take (length re) (c # cs)) = length re"
      by simp
    have "\<forall>b\<in>set (scan re (drop (length re - 1) cs) (i + length re)). i + length re \<le> fst b"
      using scan_member by fastforce
    with True "2.IH"(1) [OF True] len show ?thesis by simp
  next
    case False
    with "2.IH"(2) [OF False] show ?thesis by simp
  qed
qed

lemma match_here_digits:
  "match_here (digits n @ r) s \<longleftrightarrow>
     n \<le> length s \<and> list_all is_digit (take n s) \<and> match_here r (drop n s)"
proof (induction n arbitrary: s)
  case 0
  show ?case by (simp add: digits_def)
next
  case (Suc n)
  show ?case
  proof (cases s)
    case Nil
    then show ?thesis by (simp add: digits_def)
  next
    case (Cons c cs)
    with Suc [of cs] show ?thesis by (auto simp: digits_def)
  qed
qed

lemma length_digits: "length (digits n) = n"
  by (simp add: digits_def)

lemma take_digits_shape:
  assumes "take_digits n s = Some (v, rest)" and "match_here r rest \<and> length rest = length r"
  shows "match_here (digits n @ r) s \<and> length s = length (digits n @ r)"
proof -
  from assms(1) have t: "n \<le> length s" "list_all is_digit (take n s)" "rest = drop n s"
    by (auto simp: take_digits_def split: if_splits)
  with assms(2) have "match_here (digits n @ r) s" by (simp add: match_here_digits)
  moreover from t assms(2) have "length s = n + length r" by auto
  ultimately show ?thesis by (simp add: length_digits)
qed

lemma format_regex_Cons: "format_regex (tok # ts) = token_regex tok @ format_regex ts"
  by (simp add: format_regex_def)

lemma parse_tokens_shape:
  "parse_tokens fmt s a = Some a' \<Longrightarrow>
     match_here (format_regex fmt) s \<and> length s = length (format_regex fmt)"
proof (induction fmt s a rule: parse_tokens.induct)
  case (1 s a)
  then show ?case by (simp add: format_regex_def split: if_splits)
next
  case (2 ts s y m d)
  from "2.prems" obtain v rest where td: "take_digits 4 s = Some (v, rest)"
    and rec: "parse_tokens ts rest (Some v, m, d) = Some a'"
    by (auto split: option.splits)
  from take_digits_shape [OF td "2.IH" [OF td refl rec]] show ?case
    by (simp only: format_regex_Cons token_regex.simps)
next
  case (3 ts s y m d)
  from "3.prems" obtain v rest where td: "take_digits 2 s = Some (v, rest)"
    and rec: "parse_tokens ts rest (y, Some (v - 1), d) = Some a'"
    by (auto split: option.splits)
  from take_digits_shape [OF td "3.IH" [OF td refl rec]] show ?case
    by (simp only: format_regex_Cons token_regex.simps)
next
  case (4 ts s y m d)
  from "4.prems" obtain v rest where td: "take_digits 2 s = Some (v, rest)"
    and rec: "parse_tokens ts rest (y, m, Some v) = Some a'"
    by (auto split: option.splits)
  from take_digits_shape [OF td "4.IH" [OF td refl rec]] show ?case
    by (simp only: format_regex_Cons token_regex.simps)
next
  case (5 c ts s a)
  from "5.prems" obtain rest where s: "s = c # rest" and rec: "parse_tokens ts rest a = Some a'"
    by (auto split: list.splits if_splits)
  from "5.IH" [OF s refl rec] s show ?case
    by (simp add: format_regex_Cons)
qed

lemma moment_strict_shape:
  "moment_strict s fmt = Some d \<Longrightarrow>
     match_here (format_regex fmt) s \<and> length s = length (format_regex fmt)"
  by (auto simp: moment_strict_def dest: parse_tokens_shape split: option.splits)

lemma format_regex_formats: "map format_regex formats = DATE_FORMATS"
  by (simp add: formats_def DATE_FORMATS_def format_regex_def RE_defs
      FMT_YMD_DASH_def FMT_MDY_SLASH_def FMT_DMY_DASH_def FMT_YMD_DOT_def)

lemma scan_short: "length cs < length re \<Longrightarrow> scan re cs i = []"
proof (induction cs arbitrary: i)
  case Nil
  show ?case by simp
next
  case (Cons c cs)
  from Cons.prems match_here_length [of re "c # cs"] have "\<not> match_here re (c # cs)" by auto
  moreover from Cons.prems have "length cs < length re" by simp
  ultimately show ?case using Cons.IH by simp
qed

lemma scan_whole:
  assumes "re \<noteq> []" and "match_here re s" and "length s = length re"
  shows "scan re s 0 = [(0, s)]"
proof -
  from assms obtain c cs where s: "s = c # cs" by (cases s) auto
  with assms(3) have "drop (length re - 1) cs = []" by simp
  with assms s show ?thesis by simp
qed

lemma scan_other:
  assumes "\<not> match_here re s" and "length s \<le> length re"
  shows "scan re s 0 = []"
proof (cases s)
  case Nil
  then show ?thesis by simp
next
  case (Cons c cs)
  with assms(2) have "length cs < length re" by simp
  from scan_short [OF this] assms(1) Cons show ?thesis by simp
qed

lemma DATE_FORMATS_length: "re \<in> set DATE_FORMATS \<Longrightarrow> length re = 10"
  by (auto simp: DATE_FORMATS_def RE_explicit)

lemma shape_matches:
  assumes "re \<in> set DATE_FORMATS" and "match_here re s" and "length s = length re"
    and "re' \<in> set DATE_FORMATS"
  shows "nonoverlapping_matches re' s = (if re' = re then [s] else [])"
proof (cases "re' = re")
  case True
  from assms(1) DATE_FORMATS_length have "re \<noteq> []" by fastforce
  from scan_whole [OF this assms(2,3)] True show ?thesis
    by (simp add: nonoverlapping_matches_def)
next
  case False
  with shapes_exclusive [OF assms(4,1) _ assms(2)] have "\<not> match_here re' s" by blast
  moreover from assms(1,3,4) have "length s \<le> length re'" by (simp add: DATE_FORMATS_length)
  ultimately have "scan re' s 0 = []" by (rule scan_other)
  with False show ?thesis by (simp add: nonoverlapping_matches_def)
qed

lemma DATE_FORMATS_distinct: "distinct DATE_FORMATS"
  by (simp add: DATE_FORMATS_def RE_explicit)

lemma concat_single:
  "distinct xs \<Longrightarrow> x \<in> set xs \<Longrightarrow> concat (map (\<lambda>r. if r = x then [s] else []) xs) = [s]"
proof (induction xs)
  case Nil
  then show ?case by simp
next
  case (Cons a xs)
  show ?case
  proof (cases "a = x")
    case True
    with Cons.prems have "x \<notin> set xs" by simp
    then have "concat (map (\<lambda>r. if r = x then [s] else []) xs) = []"
      by (induction xs) auto
    with True show ?thesis by simp
  next
    case False
    with Cons show ?thesis by simp
  qed
qed

lemma findDates_shape:
  assumes "re \<in> set DATE_FORMATS" and "match_here re s" and "length s = length re"
  shows "fst (findDatesInText s w) = [s]"
proof -
  have "fst (findDatesInText s w) = concat (map (\<lambda>r. nonoverlapping_matches r s) DATE_FORMATS)"
    by (simp add: findDatesInText_concat DATE_FORMATS_def)
  also have "\<dots> = concat (map (\<lambda>r. if r = re then [s] else []) DATE_FORMATS)"
    using shape_matches [OF assms] by (intro arg_cong [where f = concat] map_cong) auto
  also have "\<dots> = [s]"
    using DATE_FORMATS_distinct assms(1) by (rule concat_single)
  finally show ?thesis .
qed

lemma DateService_findDatesInText_concat:
  "fst (DateService_findDatesInText t w) =
     concat (map (\<lambda>re. nonoverlapping_matches re t) DATE_FORMATS)"
  unfolding DateService_findDatesInText_def flatMap_loop_concat [OF DATE_FORMATS_nonempty]
  by (simp add: DATE_FORMATS_def enumerate_eq_zip)

lemma scan_matches:
  assumes "(j, s) \<in> set (scan re t 0)"
  shows "s = take (length re) (drop j t) \<and> match_here re s"
  using scan_member [OF assms] by auto

text \<open>
  Claim C8. For every input text, \<^verbatim>\<open>findDatesInText\<close> (in both versions of the source)
  returns the concatenation, in the declaration order YYYY-MM-DD, MM/DD/YYYY, DD-MM-YYYY,
  YYYY.MM.DD, of each pattern's matches. Each pattern's matches are those of a
  left-to-right scan: every one is the text at its offset and has the pattern's shape,
  and each starts at or after the end of the one before it. Nothing is removed or
  reordered across patterns.
\<close>

theorem findDatesInText_pattern_order:
  "DATE_FORMATS = [RE_YMD_DASH, RE_MDY_SLASH, RE_DMY_DASH, RE_YMD_DOT] \<and>
   fst (findDatesInText t w) = concat (map (\<lambda>re. nonoverlapping_matches re t) DATE_FORMATS) \<and>
   fst (DateService_findDatesInText t w) =
     concat (map (\<lambda>re. nonoverlapping_matches re t) DATE_FORMATS) \<and>
   (\<forall>re\<in>set DATE_FORMATS.
      nonoverlapping_matches re t = map snd (scan re t 0) \<and>
      sorted_wrt (\<lambda>a b. fst a + length (snd a) \<le> fst b) (scan re t 0) \<and>
      (\<forall>(j, s)\<in>set (scan re t 0). s = take (length re) (drop j t) \<and> match_here re s))"
proof -
  have a: "DATE_FORMATS = [RE_YMD_DASH, RE_MDY_SLASH, RE_DMY_DASH, RE_YMD_DOT]"
    by (rule DATE_FORMATS_def)
  have b: "fst (findDatesInText t w) = concat (map (\<lambda>re. nonoverlapping_matches re t) DATE_FORMATS)"
    by (simp add: findDatesInText_concat DATE_FORMATS_def)
  have c: "fst (DateService_findDatesInText t w) =
             concat (map (\<lambda>re. nonoverlapping_matches re t) DATE_FORMATS)"
    by (rule DateService_findDatesInText_concat)
  have d: "nonoverlapping_matches re t = map snd (scan re t 0) \<and>
           sorted_wrt (\<lambda>a b. fst a + length (snd a) \<le> fst b) (scan re t 0) \<and>
           (\<forall>(j, s)\<in>set (scan re t 0). s = take (length re) (drop j t) \<and> match_here re s)"
    for re
    using scan_matches [of _ _ re t] scan_sorted [of re t 0]
    by (auto simp: nonoverlapping_matches_def)
  show ?thesis
  proof (intro conjI)
    show "DATE_FORMATS = [RE_YMD_DASH, RE_MDY_SLASH, RE_DMY_DASH, RE_YMD_DOT]" by (rule a)
    show "fst (findDatesInText t w) = concat (map (\<lambda>re. nonoverlapping_matches re t) DATE_FORMATS)"
      by (rule b)
    show "fst (DateService_findDatesInText t w) =
            concat (map (\<lambda>re. nonoverlapping_matches re t) DATE_FORMATS)"
      by (rule c)
    show "\<forall>re\<in>set DATE_FORMATS.
            nonoverlapping_matches re t = map snd (scan re t 0) \<and>
            sorted_wrt (\<lambda>a b. fst a + length (snd a) \<le> fst b) (scan re t 0) \<and>
            (\<forall>(j, s)\<in>set (scan re t 0). s = take (length re) (drop j t) \<and> match_here re s)"
      by (rule ballI) (rule d)
  qed
qed

theorem findDatesInText_pattern_order_witness:
  "RE_YMD_DASH \<in> set DATE_FORMATS \<and>
   scan RE_YMD_DASH ''30-03-2020 2024-11-01 2024-11-01'' 0
     = [(11, ''2024-11-01''), (22, ''2024-11-01'')] \<and>
   sorted_wrt (\<lambda>a b. fst a + length (snd a) \<le> fst b)
     (scan RE_YMD_DASH ''30-03-2020 2024-11-01 2024-11-01'' 0) \<and>
   fst (findDatesInText ''30-03-2020 2024-11-01 2024-11-01'' (world_at 0))
     = [''2024-11-01'', ''2024-11-01'', ''30-03-2020'']"
proof -
  let ?t = "''30-03-2020 2024-11-01 2024-11-01''"
  have m: "RE_YMD_DASH \<in> set DATE_FORMATS" by (simp add: DATE_FORMATS_def)
  have sc: "scan RE_YMD_DASH ?t 0 = [(11, ''2024-11-01''), (22, ''2024-11-01'')]"
    by code_simp
  have c: "concat (map (\<lambda>re. nonoverlapping_matches re ?t) DATE_FORMATS)
             = [''2024-11-01'', ''2024-11-01'', ''30-03-2020'']"
    by code_simp
  from findDatesInText_pattern_order [of ?t "world_at 0"] m
  have "sorted_wrt (\<lambda>a b. fst a + length (snd a) \<le> fst b) (scan RE_YMD_DASH ?t 0)"
    and "fst (findDatesInText ?t (world_at 0))
           = concat (map (\<lambda>re. nonoverlapping_matches re ?t) DATE_FORMATS)"
    by blast+
  with m sc c show ?thesis by simp
qed

text \<open>
  Claim C7. For every string that is strictly valid under one of the four formats (so it
  has exactly that format's shape, with a valid calendar date and nothing else),
  \<^verbatim>\<open>findDatesInText\<close> returns exactly one match and that match is the whole input:
  the pattern of that format yields the input, and each of the other three patterns
  yields nothing.
\<close>

theorem findDatesInText_whole_date:
  assumes "fmt \<in> set formats" and "moment_strict s fmt = Some d"
  shows "fst (findDatesInText s w) = [s] \<and>
         fst (DateService_findDatesInText s w) = [s] \<and>
         format_regex fmt \<in> set DATE_FORMATS \<and>
         (\<forall>re\<in>set DATE_FORMATS.
            nonoverlapping_matches re s = (if re = format_regex fmt then [s] else []))"
proof -
  let ?re = "format_regex fmt"
  from assms(1) have "?re \<in> set (map format_regex formats)" by simp
  then have re: "?re \<in> set DATE_FORMATS" by (simp only: format_regex_formats)
  from moment_strict_shape [OF assms(2)] have m: "match_here ?re s" and l: "length s = length ?re"
    by simp_all
  have "fst (DateService_findDatesInText s w) = fst (findDatesInText s w)"
    by (simp add: DateService_findDatesInText_concat findDatesInText_concat DATE_FORMATS_def)
  with findDates_shape [OF re m l, of w] re shape_matches [OF re m l]
  show ?thesis by simp
qed

theorem findDatesInText_whole_date_witness:
  "fst (findDatesInText ''2024-03-30'' (world_at 0)) = [''2024-03-30''] \<and>
   fst (findDatesInText ''03/30/2024'' (world_at 0)) = [''03/30/2024''] \<and>
   fst (findDatesInText ''30-03-2024'' (world_at 0)) = [''30-03-2024''] \<and>
   fst (findDatesInText ''2024.03.30'' (world_at 0)) = [''2024.03.30'']"
proof -
  let ?d = "\<lparr>year = 2024, month = 2, date = 30\<rparr>"
  have f: "FMT_YMD_DASH \<in> set formats" "FMT_MDY_SLASH \<in> set formats"
    "FMT_DMY_DASH \<in> set formats" "FMT_YMD_DOT \<in> set formats"
    by (simp_all add: formats_def)
  have p1: "moment_strict ''2024-03-30'' FMT_YMD_DASH = Some ?d" by code_simp
  have p2: "moment_strict ''03/30/2024'' FMT_MDY_SLASH = Some ?d" by code_simp
  have p3: "moment_strict ''30-03-2024'' FMT_DMY_DASH = Some ?d" by code_simp
  have p4: "moment_strict ''2024.03.30'' FMT_YMD_DOT = Some ?d" by code_simp
  from findDatesInText_whole_date [OF f(1) p1, of "world_at 0"]
    findDatesInText_whole_date [OF f(2) p2, of "world_at 0"]
    findDatesInText_whole_date [OF f(3) p3, of "world_at 0"]
    findDatesInText_whole_date [OF f(4) p4, of "world_at 0"]
  show ?thesis by blast
qed

section \<open>Strict parsing: the order of the formats\<close>

lemma parseDate_loop_None:
  "parseDate_loop s fs = None \<longleftrightarrow> (\<forall>i<length fs. moment_strict s (fs ! i) = None)"
proof (induction fs)
  case Nil
  show ?case by simp
next
  case (Cons f fs)
  show ?case
  proof (cases "moment_strict s f")
    case None
    then show ?thesis using Cons.IH by (auto simp: less_Suc_eq_0_disj)
  next
    case (Some a)
    then show ?thesis by auto
  qed
qed

lemma parseDate_loop_Some:
  "parseDate_loop s fs = Some d \<longleftrightarrow>
     (\<exists>i<length fs. moment_strict s (fs ! i) = Some d \<and> (\<forall>j<i. moment_strict s (fs ! j) = None))"
  (is "_ \<longleftrightarrow> ?first fs")
proof (induction fs)
  case Nil
  show ?case by simp
next
  case (Cons f fs)
  show ?case
  proof (cases "moment_strict s f")
    case None
    have "?first (f # fs) \<longleftrightarrow> ?first fs"
    proof
      assume "?first (f # fs)"
      then obtain i where i: "i < length (f # fs)" "moment_strict s ((f # fs) ! i) = Some d"
        "\<forall>j<i. moment_strict s ((f # fs) ! j) = None" by blast
      with None obtain i' where i': "i = Suc i'" by (cases i) auto
      from i i' have "i' < length fs" "moment_strict s (fs ! i') = Some d" by auto
      moreover have "\<forall>j<i'. moment_strict s (fs ! j) = None"
      proof (intro allI impI)
        fix j assume "j < i'"
        then have "Suc j < i" using i' by simp
        with i(3) have "moment_strict s ((f # fs) ! Suc j) = None" by blast
        then show "moment_strict s (fs ! j) = None" by simp
      qed
      ultimately show "?first fs" by blast
    next
      assume "?first fs"
      then obtain i where i: "i < length fs" "moment_strict s (fs ! i) = Some d"
        "\<forall>j<i. moment_strict s (fs ! j) = None" by blast
      have "\<forall>j<Suc i. moment_strict s ((f # fs) ! j) = None"
      proof (intro allI impI)
        fix j assume "j < Suc i"
        then show "moment_strict s ((f # fs) ! j) = None"
          using None i(3) by (cases j) auto
      qed
      with i show "?first (f # fs)" by (intro exI [of _ "Suc i"]) auto
    qed
    with None Cons.IH show ?thesis by simp
  next
    case (Some a)
    have "?first (f # fs) \<longleftrightarrow> a = d"
    proof
      assume "?first (f # fs)"
      then obtain i where i: "moment_strict s ((f # fs) ! i) = Some d"
        "\<forall>j<i. moment_strict s ((f # fs) ! j) = None" by blast
      show "a = d"
      proof (cases i)
        case 0
        with i Some show ?thesis by simp
      next
        case (Suc n)
        with i(2) have "moment_strict s ((f # fs) ! 0) = None" by blast
        with Some show ?thesis by simp
      qed
    next
      assume "a = d"
      with Some show "?first (f # fs)" by (intro exI [of _ 0]) simp
    qed
    with Some show ?thesis by simp
  qed
qed

text \<open>
  Claim C6. For every input string, \<^verbatim>\<open>parseDate\<close> tries the four formats in the fixed
  order YYYY-MM-DD, MM/DD/YYYY, DD-MM-YYYY, YYYY.MM.DD. It returns no parse exactly when
  the string is strictly valid under none of them, and it returns \<open>d\<close> exactly when \<open>d\<close> is
  the strict parse under some format of the list and every format listed before that one
  rejects the string. So a string valid under more than one format parses under the one
  listed first.
\<close>

theorem parseDate_first_valid_format:
  "formats = [FMT_YMD_DASH, FMT_MDY_SLASH, FMT_DMY_DASH, FMT_YMD_DOT] \<and>
   (parseDate s = None \<longleftrightarrow> (\<forall>i<4. moment_strict s (formats ! i) = None)) \<and>
   (parseDate s = Some d \<longleftrightarrow>
      (\<exists>i<4. moment_strict s (formats ! i) = Some d \<and>
              (\<forall>j<i. moment_strict s (formats ! j) = None)))"
proof -
  have len: "length formats = 4" by (simp add: formats_def)
  show ?thesis
    unfolding parseDate_def parseDate_loop_None parseDate_loop_Some len
    by (simp add: formats_def)
qed

theorem parseDate_first_valid_format_witness:
  "\<exists>i<4. moment_strict ''30-03-2024'' (formats ! i) = Some \<lparr>year = 2024, month = 2, date = 30\<rparr> \<and>
          (\<forall>j<i. moment_strict ''30-03-2024'' (formats ! j) = None)"
proof -
  have "parseDate ''30-03-2024'' = Some \<lparr>year = 2024, month = 2, date = 30\<rparr>"
    by code_simp
  with parseDate_first_valid_format [of "''30-03-2024''" "\<lparr>year = 2024, month = 2, date = 30\<rparr>"]
  show ?thesis by blast
qed

section \<open>Classification\<close>

text \<open>
  Claim C10. For every input string and every configuration, the text colour of the pair
  that \<^verbatim>\<open>getHighlightColor\<close> returns is the configured \<^verbatim>\<open>textColor\<close>: in the three
  category branches and in the parse-failure branch alike.
\<close>

theorem getHighlightColor_text_color:
  "text_color (fst (getHighlightColor dateStr settings w)) = textColor settings"
  by (simp add: getHighlightColor_def moment_now_def Let_def split: option.splits)

lemma future_diff_nonpos: "now < valueOf d \<Longrightarrow> moment_diff_days now d \<le> 0"
  by (simp add: moment_diff_days_def absFloor_div_def MS_PER_DAY_def pos_imp_zdiv_nonneg_iff)

text \<open>
  Claim C3. For every configuration with \<^verbatim>\<open>recentDays\<close> at least 0 and every date string
  that parses strictly to a date whose midnight lies after the instant the clock shows,
  the age in days is not positive and \<^verbatim>\<open>getHighlightColor\<close> returns the Recent colour
  pair: future dates are always classified Recent.
\<close>

theorem future_dates_are_recent:
  assumes "parseDate s = Some d" and "0 \<le> recentDays settings"
    and "clock w (reads w) < valueOf d"
  shows "moment_diff_days (clock w (reads w)) d \<le> 0 \<and>
         fst (getHighlightColor s settings w) = category_colors settings Recent"
proof -
  have n: "moment_diff_days (clock w (reads w)) d \<le> 0"
    using assms(3) by (rule future_diff_nonpos)
  with assms(1,2) show ?thesis
    by (simp add: getHighlightColor_def moment_now_def Let_def category_colors_def)
qed

theorem future_dates_are_recent_witness:
  "parseDate ''2024-04-02'' = Some \<lparr>year = 2024, month = 3, date = 2\<rparr> \<and>
   0 \<le> recentDays DEFAULT_SETTINGS \<and>
   clock (world_at 1711756800000) (reads (world_at 1711756800000))
     < valueOf \<lparr>year = 2024, month = 3, date = 2\<rparr> \<and>
   fst (getHighlightColor ''2024-04-02'' DEFAULT_SETTINGS (world_at 1711756800000))
     = category_colors DEFAULT_SETTINGS Recent"
proof -
  have p: "parseDate ''2024-04-02'' = Some \<lparr>year = 2024, month = 3, date = 2\<rparr>"
    by code_simp
  have r: "0 \<le> recentDays DEFAULT_SETTINGS"
    by (simp add: DEFAULT_SETTINGS_def)
  have v: "valueOf \<lparr>year = 2024, month = 3, date = 2\<rparr> = 1712016000000"
    by code_simp
  have f: "clock (world_at 1711756800000) (reads (world_at 1711756800000))
             < valueOf \<lparr>year = 2024, month = 3, date = 2\<rparr>"
    by (simp add: v world_at_def)
  from future_dates_are_recent [OF p r f] p r f show ?thesis by simp
qed

lemma getHighlightColor_bucket:
  "parseDate s = Some d \<Longrightarrow>
     fst (getHighlightColor s settings w) =
       category_colors settings
         (bucket (moment_diff_days (clock w (reads w)) d) (recentDays settings) (intermediateDays settings))"
  by (simp add: getHighlightColor_def moment_now_def Let_def category_colors_def bucket_def)

lemma diff_same_day:
  assumes "valueOf d0 - valueOf d = n * MS_PER_DAY" and "0 \<le> n" and "0 \<le> t" and "t < MS_PER_DAY"
  shows "moment_diff_days (valueOf d0 + t) d = n"
proof -
  have eq: "valueOf d0 + t - valueOf d = t + n * MS_PER_DAY" using assms(1) by arith
  have nn: "\<not> t + n * MS_PER_DAY < 0" using assms(2,3) by (simp add: MS_PER_DAY_def)
  have dv: "(t + n * MS_PER_DAY) div MS_PER_DAY = n"
    using assms(3,4) by (simp add: MS_PER_DAY_def div_pos_pos_trivial)
  show ?thesis unfolding moment_diff_days_def absFloor_div_def eq
    by (simp only: nn dv if_False)
qed

lemma valueOf_examples:
  "valueOf \<lparr>year = 2024, month = 2, date = 30\<rparr> = 19812 * MS_PER_DAY"
  "valueOf \<lparr>year = 2024, month = 2, date = 29\<rparr> = 19811 * MS_PER_DAY"
  "valueOf \<lparr>year = 2024, month = 2, date = 10\<rparr> = 19792 * MS_PER_DAY"
  "valueOf \<lparr>year = 2024, month = 1, date = 1\<rparr> = 19754 * MS_PER_DAY"
  by code_simp+

lemma parseDate_examples:
  "parseDate ''2024-03-29'' = Some \<lparr>year = 2024, month = 2, date = 29\<rparr>"
  "parseDate ''2024-03-10'' = Some \<lparr>year = 2024, month = 2, date = 10\<rparr>"
  "parseDate ''2024-02-01'' = Some \<lparr>year = 2024, month = 1, date = 1\<rparr>"
  "parseDate ''2024-02-30'' = None"
  by code_simp+

text \<open>
  Claim C4. For every successfully parsed date and every configuration, the colour pair is
  the one of the bucket of the age in days, with inclusive boundaries evaluated in order:
  at most \<^verbatim>\<open>recentDays\<close> is Recent, else at most \<^verbatim>\<open>intermediateDays\<close> is Intermediate,
  else Old. With the clock at any instant of 2024-03-30, \<^verbatim>\<open>recentDays\<close> 14 and
  \<^verbatim>\<open>intermediateDays\<close> 30: "2024-03-29" is Recent, "2024-03-10" is Intermediate and
  "2024-02-01" is Old.
\<close>

theorem classification_buckets:
  "(\<forall>d. parseDate s = Some d \<longrightarrow>
      fst (getHighlightColor s settings w) =
        category_colors settings
          (bucket (moment_diff_days (clock w (reads w)) d)
             (recentDays settings) (intermediateDays settings))) \<and>
   (recentDays settings = 14 \<and> intermediateDays settings = 30 \<and>
    0 \<le> t \<and> t < MS_PER_DAY \<and>
    clock w (reads w) = valueOf \<lparr>year = 2024, month = 2, date = 30\<rparr> + t \<longrightarrow>
      fst (getHighlightColor ''2024-03-29'' settings w) = category_colors settings Recent \<and>
      fst (getHighlightColor ''2024-03-10'' settings w) = category_colors settings Intermediate \<and>
      fst (getHighlightColor ''2024-02-01'' settings w) = category_colors settings Old)"
proof (intro conjI allI impI)
  fix d assume "parseDate s = Some d"
  then show "fst (getHighlightColor s settings w) =
        category_colors settings
          (bucket (moment_diff_days (clock w (reads w)) d)
             (recentDays settings) (intermediateDays settings))"
    by (rule getHighlightColor_bucket)
next
  assume a: "recentDays settings = 14 \<and> intermediateDays settings = 30 \<and>
    0 \<le> t \<and> t < MS_PER_DAY \<and>
    clock w (reads w) = valueOf \<lparr>year = 2024, month = 2, date = 30\<rparr> + t"
  then have t: "0 \<le> t" "t < MS_PER_DAY" by simp_all
  let ?now = "valueOf \<lparr>year = 2024, month = 2, date = 30\<rparr> + t"
  have d1: "moment_diff_days ?now \<lparr>year = 2024, month = 2, date = 29\<rparr> = 1"
    by (rule diff_same_day [OF _ _ t]) (simp_all add: valueOf_examples)
  have d2: "moment_diff_days ?now \<lparr>year = 2024, month = 2, date = 10\<rparr> = 20"
    by (rule diff_same_day [OF _ _ t]) (simp_all add: valueOf_examples)
  have d3: "moment_diff_days ?now \<lparr>year = 2024, month = 1, date = 1\<rparr> = 58"
    by (rule diff_same_day [OF _ _ t]) (simp_all add: valueOf_examples)
  show "fst (getHighlightColor ''2024-03-29'' settings w) = category_colors settings Recent"
    using a d1 by (simp add: getHighlightColor_bucket [OF parseDate_examples(1)] bucket_def)
  show "fst (getHighlightColor ''2024-03-10'' settings w) = category_colors settings Intermediate"
    using a d2 by (simp add: getHighlightColor_bucket [OF parseDate_examples(2)] bucket_def)
  show "fst (getHighlightColor ''2024-02-01'' settings w) = category_colors settings Old"
    using a d3 by (simp add: getHighlightColor_bucket [OF parseDate_examples(3)] bucket_def)
qed

theorem classification_buckets_witness:
  "parseDate ''2024-03-10'' = Some \<lparr>year = 2024, month = 2, date = 10\<rparr> \<and>
   moment_diff_days 1711756800000 \<lparr>year = 2024, month = 2, date = 10\<rparr> = 20 \<and>
   fst (getHighlightColor ''2024-03-29'' DEFAULT_SETTINGS (world_at 1711756800000))
     = \<lparr>bg = ''#a4e7c3'', text_color = ''#000000''\<rparr> \<and>
   fst (getHighlightColor ''2024-03-10'' DEFAULT_SETTINGS (world_at 1711756800000))
     = \<lparr>bg = ''#e7dba4'', text_color = ''#000000''\<rparr> \<and>
   fst (getHighlightColor ''2024-02-01'' DEFAULT_SETTINGS (world_at 1711756800000))
     = \<lparr>bg = ''#e7a4a4'', text_color = ''#000000''\<rparr>"
proof -
  let ?w = "world_at 1711756800000"
  have h: "recentDays DEFAULT_SETTINGS = 14 \<and> intermediateDays DEFAULT_SETTINGS = 30 \<and>
           (0::int) \<le> 0 \<and> 0 < MS_PER_DAY \<and>
           clock ?w (reads ?w) = valueOf \<lparr>year = 2024, month = 2, date = 30\<rparr> + 0"
    by (simp add: DEFAULT_SETTINGS_def world_at_def valueOf_examples MS_PER_DAY_def)
  have d: "moment_diff_days 1711756800000 \<lparr>year = 2024, month = 2, date = 10\<rparr> = 20"
    by (simp add: moment_diff_days_def absFloor_div_def valueOf_examples MS_PER_DAY_def)
  from classification_buckets [of "''2024-03-10''" DEFAULT_SETTINGS ?w 0] h
  have "fst (getHighlightColor ''2024-03-29'' DEFAULT_SETTINGS ?w) = category_colors DEFAULT_SETTINGS Recent"
    and "fst (getHighlightColor ''2024-03-10'' DEFAULT_SETTINGS ?w) = category_colors DEFAULT_SETTINGS Intermediate"
    and "fst (getHighlightColor ''2024-02-01'' DEFAULT_SETTINGS ?w) = category_colors DEFAULT_SETTINGS Old"
    by blast+
  with d parseDate_examples(2) show ?thesis
    by (simp add: category_colors_def DEFAULT_SETTINGS_def)
qed



section \<open>The filename pass: which match is used\<close>

lemma string_match_clock:
  "clock (snd (string_match k re t w)) = clock w \<and> reads (snd (string_match k re t w)) = reads w"
  by (simp add: string_match_def Let_def)

lemma findDates_loop_clock:
  "clock (snd (findDates_loop krs t dates w)) = clock w \<and>
   reads (snd (findDates_loop krs t dates w)) = reads w"
proof (induction krs arbitrary: dates w)
  case Nil
  show ?case by simp
next
  case (Cons kr krs)
  obtain k re where kr: "kr = (k, re)" by (cases kr)
  obtain m w' where sm: "string_match k re t w = (m, w')" by (cases "string_match k re t w")
  with string_match_clock [of k re t w] have c: "clock w' = clock w" "reads w' = reads w" by simp_all
  show ?case
  proof (cases m)
    case None
    with kr sm c Cons.IH [of dates w'] show ?thesis by simp
  next
    case (Some ms)
    with kr sm c Cons.IH [of "dates @ ms" w'] show ?thesis by simp
  qed
qed

lemma getHighlightColor_clock:
  "clock w1 = clock w2 \<Longrightarrow> reads w1 = reads w2 \<Longrightarrow>
     fst (getHighlightColor s settings w1) = fst (getHighlightColor s settings w2)"
  by (simp add: getHighlightColor_def moment_now_def Let_def split: option.splits)

text \<open>
  Claim C2, as stated, fails. For the file named "30-03-2020 2024-11-01.md" on
  2024-11-03 the leftmost date in the name is "30-03-2020", which is Old, but the rule
  produced for the file carries the Recent colours of "2024-11-01": the match used is the
  first element of \<^verbatim>\<open>findDatesInText\<close>, which belongs to the first-declared pattern.
\<close>

theorem filename_leftmost_counterexample:
  "leftmost_match (name file_2dates) = Some ''30-03-2020'' \<and>
   fst (getHighlightColor ''30-03-2020'' DEFAULT_SETTINGS (world_at 1730592000000))
     = category_colors DEFAULT_SETTINGS Old \<and>
   fst (file_style DEFAULT_SETTINGS file_2dates (world_at 1730592000000))
     = Some (path file_2dates, category_colors DEFAULT_SETTINGS Recent) \<and>
   fst (getHighlightColor ''2024-11-01'' DEFAULT_SETTINGS (world_at 1730592000000))
     = category_colors DEFAULT_SETTINGS Recent \<and>
   category_colors DEFAULT_SETTINGS Recent \<noteq> category_colors DEFAULT_SETTINGS Old"
  by code_simp

section \<open>The content pass: the order in which spans reach the builder\<close>

text \<open>
  Claim C1 fails on the code. In the text "03/30/2024 2024-03-30" the first-declared
  pattern matches at offset 11 and the second at offset 0, so the mark for 11 to 21 is
  added before the mark for 0 to 10; the builder rejects the second one and
  \<^verbatim>\<open>buildDecorations\<close> ends with that exception instead of a result.
\<close>

theorem buildDecorations_unsorted_throws:
  "scan RE_YMD_DASH ''03/30/2024 2024-03-30'' 0 = [(11, ''2024-03-30'')] \<and>
   scan RE_MDY_SLASH ''03/30/2024 2024-03-30'' 0 = [(0, ''03/30/2024'')] \<and>
   fst (buildDecorations DEFAULT_SETTINGS
         \<lparr>doc = ''03/30/2024 2024-03-30'', visibleRanges = [(0, 21)]\<rparr> (world_at 1711756800000))
     = Inl RangesNotSorted"
  by code_simp

section \<open>The content pass against a clock that stands still\<close>

lemma getHighlightColor_classify:
  "clock w (reads w) = now \<Longrightarrow> fst (getHighlightColor s settings w) = classify settings now s"
  by (simp add: getHighlightColor_def classify_def moment_now_def Let_def category_colors_def
      bucket_def split: option.splits)

lemma generateDateTooltip_label:
  "clock w (reads w) = now \<Longrightarrow> fst (generateDateTooltip s w) = relative_label now s"
  by (auto simp: generateDateTooltip_def relative_label_def moment_now_def Let_def
      split: option.splits)

lemma getHighlightColor_keeps_clock [simp]:
  "clock (snd (getHighlightColor s settings w)) = clock w"
  by (simp add: getHighlightColor_def moment_now_def Let_def split: option.splits)

lemma generateDateTooltip_keeps_clock [simp]:
  "clock (snd (generateDateTooltip s w)) = clock w"
  by (simp add: generateDateTooltip_def moment_now_def Let_def split: option.splits)

lemma add_all_append:
  "add_all b (xs @ ys) = (case add_all b xs of Inl e \<Rightarrow> Inl e | Inr b' \<Rightarrow> add_all b' ys)"
proof (induction xs arbitrary: b)
  case Nil
  show ?case by simp
next
  case (Cons x xs)
  obtain frm to v where x: "x = (frm, to, v)" by (cases x)
  show ?case using Cons.IH by (simp add: x split: sum.splits)
qed

lemma exec_loop_scan:
  "re \<noteq> [] \<Longrightarrow> \<forall>n. clock w n = now \<Longrightarrow> lastIndex w k \<le> length t \<Longrightarrow>
     fst (exec_loop settings k re t frm b w) =
       add_all b (map (mark_of settings now frm) (scan re (drop (lastIndex w k) t) (lastIndex w k))) \<and>
     clock (snd (exec_loop settings k re t frm b w)) = clock w \<and>
     (\<forall>b'. fst (exec_loop settings k re t frm b w) = Inr b' \<longrightarrow>
        lastIndex (snd (exec_loop settings k re t frm b w)) = (lastIndex w)(k := 0))"
proof (induction settings k re t frm b w rule: exec_loop.induct)
  case (1 settings k re t frm b w)
  note ne = \<open>re \<noteq> []\<close> and steady = \<open>\<forall>n. clock w n = now\<close> and le = \<open>lastIndex w k \<le> length t\<close>
  let ?li = "lastIndex w k"
  show ?case
  proof (cases "search re (drop ?li t) ?li")
    case None
    with le have e: "regex_exec re t ?li = (None, 0)" by (simp add: regex_exec_def)
    from None have sc: "scan re (drop ?li t) ?li = []" by (rule scan_search_None)
    from e have "exec_loop settings k re t frm b w = (Inr b, w\<lparr>lastIndex := (lastIndex w)(k := 0)\<rparr>)"
      by (simp add: exec_loop.simps [of settings k re t frm b w])
    with sc show ?thesis by (simp add: fun_eq_iff)
  next
    case (Some j)
    let ?s = "take (length re) (drop j t)"
    let ?li' = "j + length re"
    from Some le have e: "regex_exec re t ?li = (Some (j, ?s), ?li')"
      by (simp add: regex_exec_def)
    from regex_exec_Some [OF e] have bd: "?li \<le> j" "?li' \<le> length t" "length ?s = length re"
      by auto
    from ne bd(1) have adv: "\<not> ?li' \<le> ?li" by (cases re) auto
    let ?w1 = "w\<lparr>lastIndex := (lastIndex w)(k := ?li')\<rparr>"
    let ?cw = "getHighlightColor ?s settings ?w1"
    let ?tw = "generateDateTooltip ?s (snd ?cw)"
    let ?v = "Decoration_mark (fst ?cw) (fst ?tw)"
    let ?start = "frm + j"
    let ?endpos = "?start + length ?s"
    from steady have c1: "fst ?cw = classify settings now ?s"
      by (intro getHighlightColor_classify) simp
    from steady have c2: "fst ?tw = relative_label now ?s"
      by (intro generateDateTooltip_label) simp
    have mk: "mark_of settings now frm (j, ?s) = (?start, ?endpos, ?v)"
      by (simp add: mark_of_def c1 c2)
    from bd(1) have d: "drop (j - ?li) (drop ?li t) = drop j t"
      "drop (j - ?li + length re) (drop ?li t) = drop ?li' t"
      by (simp_all add: add.commute)
    have sc: "scan re (drop ?li t) ?li = (j, ?s) # scan re (drop ?li' t) ?li'"
      using scan_first_match [OF ne Some] by (simp only: d)
    have w3: "clock (snd ?tw) = clock w" "lastIndex (snd ?tw) = (lastIndex w)(k := ?li')"
      by simp_all
    have unf: "exec_loop settings k re t frm b w =
                 (case builder_add b ?start ?endpos ?v of
                    Inl e \<Rightarrow> (Inl e, snd ?tw)
                  | Inr b' \<Rightarrow> exec_loop settings k re t frm b' (snd ?tw))"
      using e adv by (simp add: exec_loop.simps [of settings k re t frm b w] Let_def)
    show ?thesis
    proof (cases "builder_add b ?start ?endpos ?v")
      case (Inl err)
      with unf sc mk w3 show ?thesis by (simp add: fun_eq_iff)
    next
      case (Inr b')
      have st3: "\<forall>n. clock (snd ?tw) n = now" using steady w3(1) by simp
      have le3: "lastIndex (snd ?tw) k \<le> length t" using bd(2) w3(2) by simp
      note ih = "1.IH" [OF e [symmetric] refl refl adv refl refl refl refl refl Inr ne st3 le3]
      from unf Inr have eq: "exec_loop settings k re t frm b w = exec_loop settings k re t frm b' (snd ?tw)"
        by simp
      from ih w3 sc mk Inr show ?thesis unfolding eq by (simp add: fun_eq_iff)
    qed
  qed
qed

lemma formats_loop_marks:
  "\<forall>p\<in>set krs. snd p \<noteq> [] \<Longrightarrow> \<forall>n. clock w n = now \<Longrightarrow> lastIndex w = (\<lambda>k. 0) \<Longrightarrow>
     fst (formats_loop settings krs t frm b w) =
       add_all b (concat (map (\<lambda>p. map (mark_of settings now frm) (scan (snd p) t 0)) krs)) \<and>
     clock (snd (formats_loop settings krs t frm b w)) = clock w \<and>
     (\<forall>b'. fst (formats_loop settings krs t frm b w) = Inr b' \<longrightarrow>
        lastIndex (snd (formats_loop settings krs t frm b w)) = (\<lambda>k. 0))"
proof (induction krs arbitrary: b w)
  case Nil
  then show ?case by simp
next
  case (Cons kr krs)
  obtain k re where kr: "kr = (k, re)" by (cases kr)
  with Cons.prems(1) have ne: "re \<noteq> []" and rest: "\<forall>p\<in>set krs. snd p \<noteq> []" by simp_all
  note steady = Cons.prems(2) and zero = Cons.prems(3)
  from zero have le: "lastIndex w k \<le> length t" by simp
  obtain r w' where ex: "exec_loop settings k re t frm b w = (r, w')"
    by (cases "exec_loop settings k re t frm b w")
  from exec_loop_scan [OF ne steady le, of settings frm b] ex zero
  have r: "r = add_all b (map (mark_of settings now frm) (scan re t 0))"
    and c: "clock w' = clock w"
    and z: "\<forall>b'. r = Inr b' \<longrightarrow> lastIndex w' = (\<lambda>k. 0)"
    by (simp_all add: fun_eq_iff)
  show ?case
  proof (cases r)
    case (Inl e)
    from ex Inl have ex': "exec_loop settings k re t frm b w = (Inl e, w')" by simp
    from r Inl have a: "add_all b (map (mark_of settings now frm) (scan re t 0)) = Inl e" by simp
    from ex' a kr c show ?thesis by (simp add: add_all_append)
  next
    case (Inr b')
    with z have z': "lastIndex w' = (\<lambda>k. 0)" by simp
    from steady c have st': "\<forall>n. clock w' n = now" by simp
    from ex Inr have ex': "exec_loop settings k re t frm b w = (Inr b', w')" by simp
    from r Inr have a: "add_all b (map (mark_of settings now frm) (scan re t 0)) = Inr b'" by simp
    from Cons.IH [OF rest st' z', of b'] ex' a kr c show ?thesis
      by (simp add: add_all_append)
  qed
qed

lemma formats_loop_range:
  assumes "\<forall>n. clock w n = now" and "lastIndex w = (\<lambda>k. 0)"
  shows "fst (formats_loop settings (enumerate 0 DATE_FORMATS) (sliceString d frm to) frm b w) =
           add_all b (range_marks settings now d (frm, to)) \<and>
         clock (snd (formats_loop settings (enumerate 0 DATE_FORMATS) (sliceString d frm to) frm b w))
           = clock w \<and>
         (\<forall>b'. fst (formats_loop settings (enumerate 0 DATE_FORMATS) (sliceString d frm to) frm b w)
                 = Inr b' \<longrightarrow>
            lastIndex (snd (formats_loop settings (enumerate 0 DATE_FORMATS) (sliceString d frm to) frm b w))
              = (\<lambda>k. 0))"
proof -
  have "map (\<lambda>p. map (mark_of settings now frm) (scan (snd p) (sliceString d frm to) 0))
            (enumerate 0 DATE_FORMATS)
          = map (\<lambda>re. map (mark_of settings now frm) (scan re (sliceString d frm to) 0)) DATE_FORMATS"
    by (simp add: DATE_FORMATS_def enumerate_eq_zip)
  then have "concat (map (\<lambda>p. map (mark_of settings now frm) (scan (snd p) (sliceString d frm to) 0))
            (enumerate 0 DATE_FORMATS)) = range_marks settings now d (frm, to)"
    by (simp only: range_marks_def fst_conv snd_conv)
  with formats_loop_marks [OF DATE_FORMATS_nonempty assms, of settings "sliceString d frm to" frm b]
  show ?thesis by simp
qed

lemma ranges_loop_marks:
  "\<forall>n. clock w n = now \<Longrightarrow> lastIndex w = (\<lambda>k. 0) \<Longrightarrow>
     fst (ranges_loop settings d rs b w) =
       add_all b (concat (map (range_marks settings now d) rs)) \<and>
     clock (snd (ranges_loop settings d rs b w)) = clock w \<and>
     (\<forall>b'. fst (ranges_loop settings d rs b w) = Inr b' \<longrightarrow>
        lastIndex (snd (ranges_loop settings d rs b w)) = (\<lambda>k. 0))"
proof (induction rs arbitrary: b w)
  case Nil
  then show ?case by simp
next
  case (Cons r rs)
  obtain frm to where r: "r = (frm, to)" by (cases r)
  note steady = Cons.prems(1) and zero = Cons.prems(2)
  let ?f = "formats_loop settings (enumerate 0 DATE_FORMATS) (sliceString d frm to) frm b w"
  obtain x w' where f: "?f = (x, w')" by (cases ?f)
  from formats_loop_range [OF steady zero, of settings d frm to b] f
  have x: "x = add_all b (range_marks settings now d (frm, to))"
    and c: "clock w' = clock w"
    and z: "\<forall>b'. x = Inr b' \<longrightarrow> lastIndex w' = (\<lambda>k. 0)"
    by simp_all
  show ?case
  proof (cases x)
    case (Inl e)
    from f Inl have f': "?f = (Inl e, w')" by simp
    from x Inl have a: "add_all b (range_marks settings now d (frm, to)) = Inl e" by simp
    from f' a r c show ?thesis by (simp add: add_all_append)
  next
    case (Inr b')
    with z have z': "lastIndex w' = (\<lambda>k. 0)" by simp
    from steady c have st': "\<forall>n. clock w' n = now" by simp
    from f Inr have f': "?f = (Inr b', w')" by simp
    from x Inr have a: "add_all b (range_marks settings now d (frm, to)) = Inr b'" by simp
    from Cons.IH [OF st' z', of b'] f' a r c show ?thesis
      by (simp add: add_all_append)
  qed
qed

lemma buildDecorations_highlight_visible:
  assumes "\<forall>n. clock w n = now" and "lastIndex w = (\<lambda>k. 0)"
  shows "fst (buildDecorations settings view w) = highlight_visible settings view now \<and>
         clock (snd (buildDecorations settings view w)) = clock w \<and>
         (\<forall>out. fst (buildDecorations settings view w) = Inr out \<longrightarrow>
            lastIndex (snd (buildDecorations settings view w)) = (\<lambda>k. 0))"
proof (cases "highlightInlineContent settings")
  case False
  with assms show ?thesis by (simp add: buildDecorations_def highlight_visible_def)
next
  case True
  let ?r = "ranges_loop settings (doc view) (visibleRanges view) new_RangeSetBuilder w"
  obtain x w' where rl: "?r = (x, w')" by (cases ?r)
  from ranges_loop_marks [OF assms, of settings "doc view" "visibleRanges view" new_RangeSetBuilder] rl
  have x: "x = add_all new_RangeSetBuilder
                 (concat (map (range_marks settings now (doc view)) (visibleRanges view)))"
    and c: "clock w' = clock w"
    and z: "\<forall>b'. x = Inr b' \<longrightarrow> lastIndex w' = (\<lambda>k. 0)"
    by simp_all
  show ?thesis
  proof (cases x)
    case (Inl e)
    from rl Inl have rl': "?r = (Inl e, w')" by simp
    from x Inl have a: "add_all new_RangeSetBuilder
        (concat (map (range_marks settings now (doc view)) (visibleRanges view))) = Inl e" by simp
    from True rl' a c show ?thesis by (simp add: buildDecorations_def highlight_visible_def)
  next
    case (Inr b')
    from rl Inr have rl': "?r = (Inr b', w')" by simp
    from x Inr have a: "add_all new_RangeSetBuilder
        (concat (map (range_marks settings now (doc view)) (visibleRanges view))) = Inr b'" by simp
    from z Inr have z': "lastIndex w' = (\<lambda>k. 0)" by simp
    from True rl' a c z' show ?thesis by (simp add: buildDecorations_def highlight_visible_def)
  qed
qed

text \<open>
  Claim C9, amended. With a clock that shows the same instant \<open>now\<close> at every reading and
  the regex cursors at the start, the content pass returns exactly what the pure pass over
  the text, the configuration and \<open>now\<close> returns, so its output is determined by these
  three; and a pass that completes leaves the world such that invoking it again returns
  the identical output. (The source reads the clock anew for each colour and each label;
  only a clock that does not move makes them agree.)
\<close>

theorem pass_deterministic_under_steady_clock:
  assumes "\<forall>n. clock w n = now" and "lastIndex w = (\<lambda>k. 0)"
  shows "fst (buildDecorations settings view w) = highlight_visible settings view now \<and>
         (\<forall>out. fst (buildDecorations settings view w) = Inr out \<longrightarrow>
            fst (buildDecorations settings view (snd (buildDecorations settings view w))) = Inr out)"
proof -
  let ?w' = "snd (buildDecorations settings view w)"
  note first = buildDecorations_highlight_visible [OF assms, of settings view]
  show ?thesis
  proof (intro conjI allI impI)
    show "fst (buildDecorations settings view w) = highlight_visible settings view now"
      using first by simp
  next
    fix out assume out: "fst (buildDecorations settings view w) = Inr out"
    with first assms(1) have st: "\<forall>n. clock ?w' n = now" and z: "lastIndex ?w' = (\<lambda>k. 0)"
      by simp_all
    from buildDecorations_highlight_visible [OF st z, of settings view] first out
    show "fst (buildDecorations settings view ?w') = Inr out" by simp
  qed
qed

theorem pass_deterministic_under_steady_clock_witness:
  "(\<forall>n. clock (world_at 1711756800000) n = 1711756800000) \<and>
   lastIndex (world_at 1711756800000) = (\<lambda>k. 0) \<and>
   fst (buildDecorations DEFAULT_SETTINGS
          \<lparr>doc = ''2024-03-29 03/10/2024'', visibleRanges = [(0, 21)]\<rparr> (world_at 1711756800000))
     = Inr [(0, 10, Decoration_mark (category_colors DEFAULT_SETTINGS Recent) ''Yesterday''),
            (11, 21, Decoration_mark (category_colors DEFAULT_SETTINGS Intermediate) ''20 days ago'')] \<and>
   fst (buildDecorations DEFAULT_SETTINGS
          \<lparr>doc = ''2024-03-29 03/10/2024'', visibleRanges = [(0, 21)]\<rparr>
          (snd (buildDecorations DEFAULT_SETTINGS
                  \<lparr>doc = ''2024-03-29 03/10/2024'', visibleRanges = [(0, 21)]\<rparr>
                  (world_at 1711756800000))))
     = Inr [(0, 10, Decoration_mark (category_colors DEFAULT_SETTINGS Recent) ''Yesterday''),
            (11, 21, Decoration_mark (category_colors DEFAULT_SETTINGS Intermediate) ''20 days ago'')]"
proof -
  let ?w = "world_at 1711756800000"
  let ?v = "\<lparr>doc = ''2024-03-29 03/10/2024'', visibleRanges = [(0, 21)]\<rparr>"
  let ?out = "[(0, 10, Decoration_mark (category_colors DEFAULT_SETTINGS Recent) ''Yesterday''),
               (11, 21, Decoration_mark (category_colors DEFAULT_SETTINGS Intermediate) ''20 days ago'')]"
  have st: "\<forall>n. clock ?w n = 1711756800000" by (simp add: world_at_def)
  have z: "lastIndex ?w = (\<lambda>k. 0)" by (simp add: world_at_def)
  have hv: "highlight_visible DEFAULT_SETTINGS ?v 1711756800000 = Inr ?out" by code_simp
  from pass_deterministic_under_steady_clock [OF st z, of DEFAULT_SETTINGS ?v] hv
  have "fst (buildDecorations DEFAULT_SETTINGS ?v ?w) = Inr ?out"
    and "fst (buildDecorations DEFAULT_SETTINGS ?v (snd (buildDecorations DEFAULT_SETTINGS ?v ?w)))
           = Inr ?out"
    by simp_all
  with st z show ?thesis by simp
qed

text \<open>
  Claim C9, as stated, fails: the current moment is not read once per pass. In a pass over
  "2024-03-16" during which midnight passes, the clock is read twice; the colour is the
  Recent one of the first instant (14 days) and the label is the "15 days ago" of the
  second instant, at which the date is Intermediate. No single instant gives that pair.
\<close>

theorem clock_read_per_call_counterexample:
  "fst (buildDecorations DEFAULT_SETTINGS \<lparr>doc = ''2024-03-16'', visibleRanges = [(0, 10)]\<rparr>
          world_over_midnight)
     = Inr [(0, 10, Decoration_mark (category_colors DEFAULT_SETTINGS Recent) ''15 days ago'')] \<and>
   reads (snd (buildDecorations DEFAULT_SETTINGS \<lparr>doc = ''2024-03-16'', visibleRanges = [(0, 10)]\<rparr>
          world_over_midnight)) = 2 \<and>
   classify DEFAULT_SETTINGS 1711843199999 ''2024-03-16'' = category_colors DEFAULT_SETTINGS Recent \<and>
   relative_label 1711843199999 ''2024-03-16'' = ''14 days ago'' \<and>
   classify DEFAULT_SETTINGS 1711843200000 ''2024-03-16'' = category_colors DEFAULT_SETTINGS Intermediate \<and>
   relative_label 1711843200000 ''2024-03-16'' = ''15 days ago'' \<and>
   category_colors DEFAULT_SETTINGS Recent \<noteq> category_colors DEFAULT_SETTINGS Intermediate"
  by code_simp

text \<open>
  After the exception of the unsorted spans the cursor of the second pattern stays at 10,
  so the next pass over the same text with the same clock starts that pattern's search
  behind its only match and returns a result that lacks the mark for "03/30/2024".
\<close>

lemma buildDecorations_after_exception:
  "lastIndex (snd (buildDecorations DEFAULT_SETTINGS
       \<lparr>doc = ''03/30/2024 2024-03-30'', visibleRanges = [(0, 21)]\<rparr> (world_at 1711756800000))) 1
     = 10 \<and>
   fst (buildDecorations DEFAULT_SETTINGS
         \<lparr>doc = ''03/30/2024 2024-03-30'', visibleRanges = [(0, 21)]\<rparr>
         (snd (buildDecorations DEFAULT_SETTINGS
                 \<lparr>doc = ''03/30/2024 2024-03-30'', visibleRanges = [(0, 21)]\<rparr>
                 (world_at 1711756800000))))
     = Inr [(11, 21, Decoration_mark (category_colors DEFAULT_SETTINGS Recent) ''Today'')]"
  by code_simp

section \<open>The filename pass: the rule of each file and the style sheet\<close>

lemma DateService_getHighlightColor_eq:
  "DateService_getHighlightColor = getHighlightColor"
  by (intro ext) (simp add: DateService_getHighlightColor_def getHighlightColor_def)

lemma first_listed_concat:
  "\<forall>re\<in>set res. re \<noteq> [] \<Longrightarrow>
     first_listed res t =
       (case concat (map (\<lambda>re. nonoverlapping_matches re t) res) of
          [] \<Rightarrow> None
        | s # _ \<Rightarrow> Some s)"
proof (induction res)
  case Nil
  show ?case by simp
next
  case (Cons re res)
  from Cons.prems have ne: "re \<noteq> []" and rest: "\<forall>re\<in>set res. re \<noteq> []" by simp_all
  show ?case
  proof (cases "search re t 0")
    case None
    from scan_search_None [OF None] have "nonoverlapping_matches re t = []"
      by (simp add: nonoverlapping_matches_def)
    with None Cons.IH [OF rest] show ?thesis by simp
  next
    case (Some i)
    from scan_first_match [OF ne Some]
    have "nonoverlapping_matches re t
            = take (length re) (drop i t) # map snd (scan re (drop (i + length re) t) (i + length re))"
      by (simp add: nonoverlapping_matches_def)
    with Some show ?thesis by simp
  qed
qed

lemma first_listed_Some:
  "first_listed res t = Some s \<Longrightarrow>
     \<exists>k<length res. \<exists>i. search (res ! k) t 0 = Some i \<and>
        (\<forall>j<k. search (res ! j) t 0 = None) \<and> s = take (length (res ! k)) (drop i t)"
proof (induction res)
  case Nil
  then show ?case by simp
next
  case (Cons re res)
  show ?case
  proof (cases "search re t 0")
    case (Some i)
    with Cons.prems have "s = take (length re) (drop i t)" by simp
    with Some show ?thesis by (intro exI [of _ 0]) simp
  next
    case None
    with Cons.prems have "first_listed res t = Some s" by simp
    from Cons.IH [OF this] obtain k i where k: "k < length res" "search (res ! k) t 0 = Some i"
      "\<forall>j<k. search (res ! j) t 0 = None" "s = take (length (res ! k)) (drop i t)" by blast
    have "\<forall>j<Suc k. search ((re # res) ! j) t 0 = None"
    proof (intro allI impI)
      fix j assume "j < Suc k"
      with None k(3) show "search ((re # res) ! j) t 0 = None" by (cases j) auto
    qed
    with k show ?thesis by (intro exI [of _ "Suc k"]) auto
  qed
qed

lemma DATE_FORMATS_all_nonempty: "\<forall>re\<in>set DATE_FORMATS. re \<noteq> []"
  using DATE_FORMATS_length by fastforce

lemma dates_first_listed:
  "first_listed_match t = (case fst (findDatesInText t w) of [] \<Rightarrow> None | s # _ \<Rightarrow> Some s)"
proof -
  have "fst (findDatesInText t w) = concat (map (\<lambda>re. nonoverlapping_matches re t) DATE_FORMATS)"
    by (simp add: findDatesInText_concat DATE_FORMATS_def)
  with first_listed_concat [OF DATE_FORMATS_all_nonempty, of t] show ?thesis
    by (simp add: first_listed_match_def)
qed

lemma flatMap_loop_clock:
  "clock (snd (flatMap_loop krs t w)) = clock w \<and> reads (snd (flatMap_loop krs t w)) = reads w"
proof (induction krs arbitrary: w)
  case Nil
  show ?case by simp
next
  case (Cons kr krs)
  obtain k re where kr: "kr = (k, re)" by (cases kr)
  obtain m w' where sm: "string_match k re t w = (m, w')" by (cases "string_match k re t w")
  with string_match_clock [of k re t w] have c: "clock w' = clock w" "reads w' = reads w" by simp_all
  obtain r w'' where fl: "flatMap_loop krs t w' = (r, w'')" by (cases "flatMap_loop krs t w'")
  with Cons.IH [of w'] c have "clock w'' = clock w" "reads w'' = reads w" by simp_all
  with kr sm fl show ?case by simp
qed

lemma file_style_first_listed:
  "fst (file_style settings file w) =
     map_option (\<lambda>s. (path file, fst (getHighlightColor s settings w))) (first_listed_match (name file))"
  "clock (snd (file_style settings file w)) = clock w"
proof -
  let ?t = "name file"
  obtain ds w1 where f: "findDatesInText ?t w = (ds, w1)" by (cases "findDatesInText ?t w")
  from f findDates_loop_clock [of "enumerate 0 DATE_FORMATS" ?t "[]" w]
  have c: "clock w1 = clock w" "reads w1 = reads w" by (simp_all add: findDatesInText_def)
  from dates_first_listed [of ?t w] f
  have fl: "first_listed_match ?t = (case ds of [] \<Rightarrow> None | s # _ \<Rightarrow> Some s)" by simp
  show "fst (file_style settings file w) =
     map_option (\<lambda>s. (path file, fst (getHighlightColor s settings w))) (first_listed_match (name file))"
  proof (cases ds)
    case Nil
    with f fl show ?thesis by (simp add: file_style_def)
  next
    case (Cons x xs)
    from getHighlightColor_clock [OF c]
    have "fst (getHighlightColor x settings w1) = fst (getHighlightColor x settings w)" .
    with Cons f fl show ?thesis by (simp add: file_style_def case_prod_beta)
  qed
  show "clock (snd (file_style settings file w)) = clock w"
    using f c by (cases ds) (simp_all add: file_style_def case_prod_beta)
qed

lemma DateService_file_style_first_listed:
  "fst (DateService_file_style settings file w) =
     map_option (\<lambda>s. (path file, fst (getHighlightColor s settings w))) (first_listed_match (path file))"
  "clock (snd (DateService_file_style settings file w)) = clock w"
proof -
  let ?t = "path file"
  obtain ds w1 where f: "DateService_findDatesInText ?t w = (ds, w1)"
    by (cases "DateService_findDatesInText ?t w")
  from f flatMap_loop_clock [of "enumerate 0 DATE_FORMATS" ?t w]
  have c: "clock w1 = clock w" "reads w1 = reads w"
    by (simp_all add: DateService_findDatesInText_def)
  have "fst (DateService_findDatesInText ?t w) = fst (findDatesInText ?t w)"
    by (simp add: DateService_findDatesInText_concat findDatesInText_concat DATE_FORMATS_def)
  with dates_first_listed [of ?t w] f
  have fl: "first_listed_match ?t = (case ds of [] \<Rightarrow> None | s # _ \<Rightarrow> Some s)" by simp
  show "fst (DateService_file_style settings file w) =
     map_option (\<lambda>s. (path file, fst (getHighlightColor s settings w))) (first_listed_match (path file))"
  proof (cases ds)
    case Nil
    with f fl show ?thesis by (simp add: DateService_file_style_def)
  next
    case (Cons x xs)
    from getHighlightColor_clock [OF c]
    have "fst (getHighlightColor x settings w1) = fst (getHighlightColor x settings w)" .
    with Cons f fl show ?thesis
      by (simp add: DateService_file_style_def DateService_getHighlightColor_eq case_prod_beta)
  qed
  show "clock (snd (DateService_file_style settings file w)) = clock w"
    using f c
    by (cases ds) (simp_all add: DateService_file_style_def DateService_getHighlightColor_eq case_prod_beta)
qed

lemma files_loop_steady:
  "\<forall>n. clock w n = now \<Longrightarrow>
     fst (files_loop escape settings files styleContent w) =
       styleContent @
       concat (map (\<lambda>f. case first_listed_match (name f) of
                            None \<Rightarrow> ''''
                          | Some s \<Rightarrow> style_rule escape (path f, classify settings now s)) files)"
proof (induction files arbitrary: styleContent w)
  case Nil
  show ?case by simp
next
  case (Cons tf tfs)
  note steady = Cons.prems
  obtain r w' where fs: "file_style settings tf w = (r, w')"
    by (cases "file_style settings tf w")
  from file_style_first_listed(1) [of settings tf w] fs
  have r: "r = map_option (\<lambda>s. (path tf, fst (getHighlightColor s settings w)))
                 (first_listed_match (name tf))" by simp
  from file_style_first_listed(2) [of settings tf w] fs
  have c: "clock w' = clock w" by simp
  from steady c have st': "\<forall>n. clock w' n = now" by simp
  from steady have col: "fst (getHighlightColor s settings w) = classify settings now s" for s
    by (intro getHighlightColor_classify) simp
  show ?case
  proof (cases "first_listed_match (name tf)")
    case None
    with r have "r = None" by simp
    with fs None Cons.IH [OF st', of styleContent] show ?thesis by simp
  next
    case (Some s)
    with r col have "r = Some (path tf, classify settings now s)" by simp
    with fs Some Cons.IH [OF st', of "styleContent @ style_rule escape (path tf, classify settings now s)"]
    show ?thesis by simp
  qed
qed

lemma generateFileStyles_map_steady:
  "\<forall>n. clock w n = now \<Longrightarrow>
     fst (generateFileStyles_map escape settings files w) =
       map (\<lambda>f. case first_listed_match (path f) of
                   None \<Rightarrow> ''''
                 | Some s \<Rightarrow> DateService_style_rule escape (path f, classify settings now s)) files"
proof (induction files arbitrary: w)
  case Nil
  show ?case by simp
next
  case (Cons tf tfs)
  note steady = Cons.prems
  obtain r w' where fs: "DateService_file_style settings tf w = (r, w')"
    by (cases "DateService_file_style settings tf w")
  from DateService_file_style_first_listed(1) [of settings tf w] fs
  have r: "r = map_option (\<lambda>s. (path tf, fst (getHighlightColor s settings w)))
                 (first_listed_match (path tf))" by simp
  from DateService_file_style_first_listed(2) [of settings tf w] fs
  have c: "clock w' = clock w" by simp
  from steady c have st': "\<forall>n. clock w' n = now" by simp
  from steady have col: "fst (getHighlightColor s settings w) = classify settings now s" for s
    by (intro getHighlightColor_classify) simp
  obtain rs w'' where g: "generateFileStyles_map escape settings tfs w' = (rs, w'')"
    by (cases "generateFileStyles_map escape settings tfs w'")
  with Cons.IH [OF st'] have rs: "rs = map (\<lambda>f. case first_listed_match (path f) of
                   None \<Rightarrow> ''''
                 | Some s \<Rightarrow> DateService_style_rule escape (path f, classify settings now s)) tfs"
    by simp
  show ?case
  proof (cases "first_listed_match (path tf)")
    case None
    with r have "r = None" by simp
    with fs g rs None show ?thesis by simp
  next
    case (Some s)
    with r col have "r = Some (path tf, classify settings now s)" by simp
    with fs g rs Some show ?thesis by simp
  qed
qed

lemma first_listed_match_leftmost_of_first:
  assumes "fst (findDatesInText t w) \<noteq> []"
  shows "\<exists>k<4. \<exists>i. search (DATE_FORMATS ! k) t 0 = Some i \<and>
           (\<forall>j<k. search (DATE_FORMATS ! j) t 0 = None) \<and>
           hd (fst (findDatesInText t w)) = take 10 (drop i t) \<and>
           first_listed_match t = Some (take 10 (drop i t))"
proof -
  from assms obtain x xs where ds: "fst (findDatesInText t w) = x # xs"
    by (cases "fst (findDatesInText t w)") auto
  with dates_first_listed [of t w] have fl: "first_listed_match t = Some x" by simp
  have len: "length DATE_FORMATS = 4" by (simp add: DATE_FORMATS_def)
  from first_listed_Some [OF fl [unfolded first_listed_match_def]] len
  obtain k i where k: "k < 4" "search (DATE_FORMATS ! k) t 0 = Some i"
    "\<forall>j<k. search (DATE_FORMATS ! j) t 0 = None"
    "x = take (length (DATE_FORMATS ! k)) (drop i t)" by auto
  from k(1) len have "length (DATE_FORMATS ! k) = 10"
    by (intro DATE_FORMATS_length) simp
  with k(4) have x: "x = take 10 (drop i t)" by simp
  with k(1,2,3) ds fl show ?thesis by auto
qed

text \<open>
  Claim C2, amended. In both versions of the source the filename pass produces, for every
  file whose scanned identifier (the file name in the first version, the file path in the
  refactored one) holds at least one date-pattern match, exactly one result, keyed by the
  file path and computed from the first element of \<^verbatim>\<open>findDatesInText\<close>: the leftmost
  match of the first pattern, in declaration order, that matches anywhere in the
  identifier. Every other match is ignored, and a file without a match gets no result.
  With the toggle off the style sheet is empty; with it on, and a clock that stands still,
  the style sheet is the rules of the files in order, one per file with a match.
\<close>

theorem filename_uses_first_listed_match:
  "(fst (findDatesInText t w) \<noteq> [] \<longrightarrow>
      (\<exists>k<4. \<exists>i. search (DATE_FORMATS ! k) t 0 = Some i \<and>
         (\<forall>j<k. search (DATE_FORMATS ! j) t 0 = None) \<and>
         hd (fst (findDatesInText t w)) = take 10 (drop i t) \<and>
         first_listed_match t = Some (take 10 (drop i t)))) \<and>
   (fst (findDatesInText t w) = [] \<longrightarrow> first_listed_match t = None) \<and>
   fst (DateService_findDatesInText t w) = fst (findDatesInText t w) \<and>
   fst (file_style settings tf w) =
     map_option (\<lambda>s. (path tf, fst (getHighlightColor s settings w)))
       (first_listed_match (name tf)) \<and>
   fst (DateService_file_style settings tf w) =
     map_option (\<lambda>s. (path tf, fst (getHighlightColor s settings w)))
       (first_listed_match (path tf)) \<and>
   (\<not> highlightFilenames settings \<longrightarrow>
      updateFileStyles escape settings files w = ('''', w) \<and>
      updateFileStyles_refactored escape settings files w = ('''', w)) \<and>
   (highlightFilenames settings \<and> (\<forall>n. clock w n = now) \<longrightarrow>
      fst (updateFileStyles escape settings files w) =
        concat (map (\<lambda>f. case first_listed_match (name f) of
                            None \<Rightarrow> ''''
                          | Some s \<Rightarrow> style_rule escape (path f, classify settings now s)) files) \<and>
      fst (updateFileStyles_refactored escape settings files w) =
        concat (map (\<lambda>f. case first_listed_match (path f) of
                            None \<Rightarrow> ''''
                          | Some s \<Rightarrow> DateService_style_rule escape (path f, classify settings now s))
                    files))"
proof (intro conjI impI)
  assume "fst (findDatesInText t w) \<noteq> []"
  then show "\<exists>k<4. \<exists>i. search (DATE_FORMATS ! k) t 0 = Some i \<and>
         (\<forall>j<k. search (DATE_FORMATS ! j) t 0 = None) \<and>
         hd (fst (findDatesInText t w)) = take 10 (drop i t) \<and>
         first_listed_match t = Some (take 10 (drop i t))"
    by (rule first_listed_match_leftmost_of_first)
next
  assume "fst (findDatesInText t w) = []"
  with dates_first_listed [of t w] show "first_listed_match t = None" by simp
next
  show "fst (DateService_findDatesInText t w) = fst (findDatesInText t w)"
    by (simp add: DateService_findDatesInText_concat findDatesInText_concat DATE_FORMATS_def)
next
  show "fst (file_style settings tf w) =
     map_option (\<lambda>s. (path tf, fst (getHighlightColor s settings w)))
       (first_listed_match (name tf))"
    by (rule file_style_first_listed(1))
next
  show "fst (DateService_file_style settings tf w) =
     map_option (\<lambda>s. (path tf, fst (getHighlightColor s settings w)))
       (first_listed_match (path tf))"
    by (rule DateService_file_style_first_listed(1))
next
  assume off: "\<not> highlightFilenames settings"
  then show "updateFileStyles escape settings files w = ('''', w)"
    by (simp add: updateFileStyles_def)
  from off show "updateFileStyles_refactored escape settings files w = ('''', w)"
    by (simp add: updateFileStyles_refactored_def)
next
  assume on: "highlightFilenames settings \<and> (\<forall>n. clock w n = now)"
  then have steady: "\<forall>n. clock w n = now" by simp
  from on files_loop_steady [OF steady, of escape settings files "''''"]
  show "fst (updateFileStyles escape settings files w) =
        concat (map (\<lambda>f. case first_listed_match (name f) of
                            None \<Rightarrow> ''''
                          | Some s \<Rightarrow> style_rule escape (path f, classify settings now s)) files)"
    by (simp add: updateFileStyles_def)
  from on generateFileStyles_map_steady [OF steady, of escape settings files]
  show "fst (updateFileStyles_refactored escape settings files w) =
        concat (map (\<lambda>f. case first_listed_match (path f) of
                            None \<Rightarrow> ''''
                          | Some s \<Rightarrow> DateService_style_rule escape (path f, classify settings now s))
                    files)"
    by (simp add: updateFileStyles_refactored_def generateFileStyles_def case_prod_beta)
qed

theorem filename_uses_first_listed_match_witness:
  "fst (findDatesInText (name file_2dates) (world_at 1730592000000)) \<noteq> [] \<and>
   search (DATE_FORMATS ! 0) (name file_2dates) 0 = Some 11 \<and>
   first_listed_match (name file_2dates) = Some ''2024-11-01'' \<and>
   fst (file_style DEFAULT_SETTINGS file_2dates (world_at 1730592000000)) =
     Some (path file_2dates, category_colors DEFAULT_SETTINGS Recent) \<and>
   fst (file_style DEFAULT_SETTINGS file_path_dates (world_at 1730592000000)) =
     Some (path file_path_dates, category_colors DEFAULT_SETTINGS Recent) \<and>
   fst (DateService_file_style DEFAULT_SETTINGS file_path_dates (world_at 1730592000000)) =
     Some (path file_path_dates, category_colors DEFAULT_SETTINGS Old) \<and>
   highlightFilenames DEFAULT_SETTINGS \<and>
   (\<forall>n. clock (world_at 1730592000000) n = 1730592000000) \<and>
   fst (updateFileStyles id DEFAULT_SETTINGS
          [\<lparr>name = ''notes.md'', path = ''notes.md''\<rparr>, file_path_dates] (world_at 1730592000000)) =
     style_rule id (path file_path_dates, category_colors DEFAULT_SETTINGS Recent) \<and>
   fst (updateFileStyles_refactored id DEFAULT_SETTINGS
          [\<lparr>name = ''notes.md'', path = ''notes.md''\<rparr>, file_path_dates] (world_at 1730592000000)) =
     DateService_style_rule id (path file_path_dates, category_colors DEFAULT_SETTINGS Old) \<and>
   updateFileStyles id (DEFAULT_SETTINGS\<lparr>highlightFilenames := False\<rparr>) [file_path_dates]
     (world_at 1730592000000) = ('''', world_at 1730592000000)"
proof -
  let ?now = "1730592000000 :: int"
  let ?w = "world_at ?now"
  let ?fs = "[\<lparr>name = ''notes.md'', path = ''notes.md''\<rparr>, file_path_dates]"
  let ?off = "DEFAULT_SETTINGS\<lparr>highlightFilenames := False\<rparr>"
  have ne: "fst (findDatesInText (name file_2dates) ?w) \<noteq> []" by code_simp
  have s0: "search (DATE_FORMATS ! 0) (name file_2dates) 0 = Some 11" by code_simp
  have on: "highlightFilenames DEFAULT_SETTINGS" by (simp add: DEFAULT_SETTINGS_def)
  have off: "\<not> highlightFilenames ?off" by simp
  have st: "\<forall>n. clock ?w n = ?now" by (simp add: world_at_def)
  have fl: "first_listed_match (name file_2dates) = Some ''2024-11-01''"
    "first_listed_match (name file_path_dates) = Some ''2024-11-01''"
    "first_listed_match (path file_path_dates) = Some ''2020-01-01''"
    "first_listed_match ''notes.md'' = None"
    by code_simp+
  have col: "fst (getHighlightColor ''2024-11-01'' DEFAULT_SETTINGS ?w) = category_colors DEFAULT_SETTINGS Recent"
    "fst (getHighlightColor ''2020-01-01'' DEFAULT_SETTINGS ?w) = category_colors DEFAULT_SETTINGS Old"
    "classify DEFAULT_SETTINGS ?now ''2024-11-01'' = category_colors DEFAULT_SETTINGS Recent"
    "classify DEFAULT_SETTINGS ?now ''2020-01-01'' = category_colors DEFAULT_SETTINGS Old"
    by code_simp+
  note a = filename_uses_first_listed_match
    [where t = "name file_2dates" and w = ?w and settings = DEFAULT_SETTINGS
       and tf = file_2dates and escape = id and files = ?fs and now = ?now]
  note b = filename_uses_first_listed_match
    [where t = "name file_2dates" and w = ?w and settings = DEFAULT_SETTINGS
       and tf = file_path_dates and escape = id and files = ?fs and now = ?now]
  note c = filename_uses_first_listed_match
    [where t = "name file_2dates" and w = ?w and settings = ?off
       and tf = file_path_dates and escape = id and files = "[file_path_dates]" and now = ?now]
  from a have a4: "fst (file_style DEFAULT_SETTINGS file_2dates ?w) =
     map_option (\<lambda>s. (path file_2dates, fst (getHighlightColor s DEFAULT_SETTINGS ?w)))
       (first_listed_match (name file_2dates))" by blast
  from b have b4: "fst (file_style DEFAULT_SETTINGS file_path_dates ?w) =
     map_option (\<lambda>s. (path file_path_dates, fst (getHighlightColor s DEFAULT_SETTINGS ?w)))
       (first_listed_match (name file_path_dates))"
    and b5: "fst (DateService_file_style DEFAULT_SETTINGS file_path_dates ?w) =
     map_option (\<lambda>s. (path file_path_dates, fst (getHighlightColor s DEFAULT_SETTINGS ?w)))
       (first_listed_match (path file_path_dates))" by blast+
  from b on st have b7: "fst (updateFileStyles id DEFAULT_SETTINGS ?fs ?w) =
        concat (map (\<lambda>f. case first_listed_match (name f) of
                            None \<Rightarrow> ''''
                          | Some s \<Rightarrow> style_rule id (path f, classify DEFAULT_SETTINGS ?now s)) ?fs)"
    and b8: "fst (updateFileStyles_refactored id DEFAULT_SETTINGS ?fs ?w) =
        concat (map (\<lambda>f. case first_listed_match (path f) of
                            None \<Rightarrow> ''''
                          | Some s \<Rightarrow> DateService_style_rule id (path f, classify DEFAULT_SETTINGS ?now s))
                    ?fs)" by blast+
  from c off have c6: "updateFileStyles id ?off [file_path_dates] ?w = ('''', ?w)" by blast
  from a4 b4 b5 b7 b8 c6 ne s0 on st fl col show ?thesis by simp
qed

end
